theory Spec2Isabelle
  imports Main "HOL-Library.Word"
begin

section \<open>The packet FIFO of txproto (fifo\_template.c instantiated by fifo\_packet.c)\<close>

text \<open>
  The template is instantiated with \<open>TYPE = AVPacket\<close>; the item type is the type
  variable \<open>'a\<close>, and a pointer to an item that may be \<open>NULL\<close> is an \<open>'a option\<close>.
  An \<open>AVBufferRef\<close> to a FIFO is identified with the address of the \<open>SPPacketFIFO\<close>
  it carries in \<open>data\<close>; a handle that may be \<open>NULL\<close> is an \<open>addr option\<close>.
  The memory is a store from addresses to FIFO structs.

  One thread runs. A mutex is a boolean (held or not); locking a held mutex never
  returns, and neither does a wait on a condition variable, since no other thread can
  signal it. Such a call has the outcome \<open>None\<close>.
\<close>

subsection \<open>Return codes\<close>

text \<open>\<open>AVERROR(e)\<close> is \<open>-(e)\<close>; the errno numbers are those of Linux.\<close>

definition AVERROR :: "int \<Rightarrow> int" where
  "AVERROR e = - e"

definition EAGAIN :: int where "EAGAIN = 11"
definition ENOMEM :: int where "ENOMEM = 12"
definition EINVAL :: int where "EINVAL = 22"
definition ENOBUFS :: int where "ENOBUFS = 105"

subsection \<open>Data model\<close>

text \<open>
  Modelled from the spec: the enum \<open>SPPacketFIFOFlags\<close> is declared in
  libtxproto/fifo\_packet.h, which is not among the sources. The spec gives the block
  flags as a set of named flags; \<open>x |= F\<close> is \<open>insert F x\<close> and \<open>x & F\<close>, read as a
  truth value, is \<open>F \<in> x\<close>.
\<close>

datatype flag = BLOCK_MAX_OUTPUT | BLOCK_NO_INPUT | PULL_NO_BLOCK | PULL_POKE

type_synonym addr = nat

text \<open>
  \<open>struct SPPacketFIFO\<close>. The array \<open>queued\<close> with its count \<open>num_queued\<close> is the list
  of the entries in use; \<open>max_queued\<close> is a C \<open>int\<close>, a 32-bit word read as two's
  complement. The byte size of the array (\<open>queued_alloc_size\<close>) is left to the
  allocator, and the two condition variables carry no state when one thread runs.
\<close>

record 'a fifo =
  queued :: "'a option list"
  max_queued :: "32 word"
  block_flags :: "flag set"
  poked :: bool
  lock :: bool
  dests :: "addr list"
  sources :: "addr list"

type_synonym 'a store = "addr \<Rightarrow> 'a fifo"

definition num_queued :: "'a fifo \<Rightarrow> int" where
  "num_queued ctx = int (length (queued ctx))"

text \<open>
  What the surrounding libraries decide: \<open>av_clone x\<close> is the result of
  \<open>av_packet_clone\<close> on a non-null packet (\<open>None\<close> when it cannot allocate), and
  \<open>av_fast_realloc n\<close> tells whether the array can be grown to hold \<open>n\<close> entries.
\<close>

record 'a env =
  av_clone :: "'a \<Rightarrow> 'a option"
  av_fast_realloc :: "nat \<Rightarrow> bool"

definition CLONE_FN :: "'a env \<Rightarrow> 'a option \<Rightarrow> 'a option" where
  "CLONE_FN E x = (case x of None \<Rightarrow> None | Some p \<Rightarrow> av_clone E p)"

definition mutex_lock :: "'a store \<Rightarrow> addr \<Rightarrow> 'a store option" where
  "mutex_lock s a = (if lock (s a) then None else Some (s(a := (s a)\<lparr>lock := True\<rparr>)))"

definition mutex_unlock :: "'a store \<Rightarrow> addr \<Rightarrow> 'a store" where
  "mutex_unlock s a = s(a := (s a)\<lparr>lock := False\<rparr>)"

subsection \<open>Push and fan-out\<close>

text \<open>
  \<open>sp_packet_fifo_push\<close> on a non-null handle, and its loop at the label
  \<open>distribute\<close>. The recursion follows the mirror graph, so it is bounded by fuel:
  \<open>None\<close> is a call that has not returned (out of fuel, a held mutex met again, or a
  wait on \<open>cond_out\<close>). The destinations are traversed in the order of the list.
  The comparison \<open>num_queued > max_queued + 1\<close> is one of C \<open>int\<close>s: the sum is the 32-bit
  sum, which is the mathematical one unless \<open>max_queued\<close> is \<open>INT_MAX\<close> (an overflow that C
  leaves undefined; the model takes the two's complement result).
\<close>

fun fifo_push :: "nat \<Rightarrow> 'a env \<Rightarrow> 'a store \<Rightarrow> addr \<Rightarrow> 'a option \<Rightarrow> ('a store \<times> int) option"
  and distribute :: "nat \<Rightarrow> 'a env \<Rightarrow> 'a store \<Rightarrow> addr list \<Rightarrow> 'a option \<Rightarrow> int \<Rightarrow> ('a store \<times> int) option"
where
  "fifo_push 0 E s dst item = None"
| "fifo_push (Suc k) E s dst item =
     (case mutex_lock s dst of
        None \<Rightarrow> None
      | Some s1 \<Rightarrow>
          let ctx = s1 dst in
          if max_queued ctx = 0 then
            (case distribute k E s1 (dests ctx) item 0 of
               None \<Rightarrow> None
             | Some (s2, err) \<Rightarrow> Some (mutex_unlock s2 dst, err))
          else if item \<noteq> None \<and> max_queued ctx \<noteq> - 1 \<and>
                  num_queued ctx > sint (max_queued ctx + 1) then
            (if BLOCK_MAX_OUTPUT \<notin> block_flags ctx
             then Some (mutex_unlock s1 dst, AVERROR ENOBUFS)
             else None)
          else if \<not> av_fast_realloc E (length (queued ctx) + 1) then
            Some (mutex_unlock s1 dst, AVERROR ENOMEM)
          else
            (let s2 = s1(dst := ctx\<lparr>queued := queued ctx @ [CLONE_FN E item]\<rparr>) in
             case distribute k E s2 (dests ctx) item 0 of
               None \<Rightarrow> None
             | Some (s3, err) \<Rightarrow> Some (mutex_unlock s3 dst, err)))"
| "distribute k E s [] item err = Some (s, err)"
| "distribute k E s (dist # rest) item err =
     (case fifo_push k E s dist item of
        None \<Rightarrow> None
      | Some (s', ret) \<Rightarrow>
          if ret = AVERROR ENOMEM then Some (s', ret)
          else distribute k E s' rest item (if ret \<noteq> 0 \<and> err = 0 then ret else err))"

definition sp_packet_fifo_push ::
  "nat \<Rightarrow> 'a env \<Rightarrow> 'a store \<Rightarrow> addr option \<Rightarrow> 'a option \<Rightarrow> ('a store \<times> int) option" where
  "sp_packet_fifo_push k E s dst item =
     (case dst of None \<Rightarrow> Some (s, 0) | Some a \<Rightarrow> fifo_push k E s a item)"

subsection \<open>Pull, peek and pop\<close>

text \<open>
  The loop \<open>while (!ctx->num_queued)\<close> of \<open>packet_fifo_pull_flags_template\<close>, on the
  struct of the locked FIFO. It ends with \<open>Inl ret\<close> at a \<open>goto unlock\<close>, with \<open>Inr ctx\<close>
  when the queue has an entry, and with \<open>None\<close> at a wait on \<open>cond_in\<close>.
\<close>

function pull_wait :: "'a fifo \<Rightarrow> flag set \<Rightarrow> ('a fifo \<times> int + 'a fifo) option" where
  "pull_wait ctx flags =
     (if num_queued ctx \<noteq> 0 then Some (Inr ctx)
      else if BLOCK_NO_INPUT \<notin> block_flags ctx \<or> PULL_NO_BLOCK \<in> flags
        then Some (Inl (ctx, AVERROR EAGAIN))
      else if \<not> poked ctx then None
      else if PULL_POKE \<in> flags \<and> poked ctx
        then Some (Inl (ctx\<lparr>poked := False\<rparr>, AVERROR EAGAIN))
      else pull_wait (ctx\<lparr>poked := False\<rparr>) flags)"
  by pat_completeness auto
termination
  by (relation "measure (\<lambda>(ctx, flags). if poked ctx then 1 else 0)") auto

text \<open>
  The result is the store, the item written to \<open>*dst\<close> and the return code. The
  loop leaves to the code after it only with an entry in the queue, so the assertion
  \<open>num_queued >= 0\<close> after the decrement cannot fail and the case of an empty queue
  below is never taken.
\<close>

definition fifo_pull_flags_template ::
  "'a env \<Rightarrow> 'a store \<Rightarrow> addr option \<Rightarrow> flag set \<Rightarrow> bool \<Rightarrow> ('a store \<times> 'a option \<times> int) option" where
  "fifo_pull_flags_template E s src flags pop =
     (case src of
        None \<Rightarrow> Some (s, None, 0)
      | Some a \<Rightarrow>
          (case mutex_lock s a of
             None \<Rightarrow> None
           | Some s1 \<Rightarrow>
               (case pull_wait (s1 a) flags of
                  None \<Rightarrow> None
                | Some (Inl (ctx, ret)) \<Rightarrow> Some (mutex_unlock (s1(a := ctx)) a, None, ret)
                | Some (Inr ctx) \<Rightarrow>
                    (case queued ctx of
                       [] \<Rightarrow> None
                     | out # rest \<Rightarrow>
                         if pop then Some (mutex_unlock (s1(a := ctx\<lparr>queued := rest\<rparr>)) a, out, 0)
                         else Some (mutex_unlock (s1(a := ctx)) a, CLONE_FN E out, 0)))))"

definition sp_packet_fifo_pop_flags ::
  "'a env \<Rightarrow> 'a store \<Rightarrow> addr option \<Rightarrow> flag set \<Rightarrow> ('a store \<times> 'a option \<times> int) option" where
  "sp_packet_fifo_pop_flags E s src flags = fifo_pull_flags_template E s src flags True"

definition sp_packet_fifo_pop :: "'a env \<Rightarrow> 'a store \<Rightarrow> addr option \<Rightarrow> ('a store \<times> 'a option) option" where
  "sp_packet_fifo_pop E s src =
     map_option (\<lambda>(s', val, ret). (s', val)) (fifo_pull_flags_template E s src {} True)"

definition sp_packet_fifo_peek_flags ::
  "'a env \<Rightarrow> 'a store \<Rightarrow> addr option \<Rightarrow> flag set \<Rightarrow> ('a store \<times> 'a option \<times> int) option" where
  "sp_packet_fifo_peek_flags E s src flags = fifo_pull_flags_template E s src flags False"

definition sp_packet_fifo_peek :: "'a env \<Rightarrow> 'a store \<Rightarrow> addr option \<Rightarrow> ('a store \<times> 'a option) option" where
  "sp_packet_fifo_peek E s src =
     map_option (\<lambda>(s', val, ret). (s', val)) (fifo_pull_flags_template E s src {} False)"

subsection \<open>Construction\<close>

text \<open>
  \<open>sp_packet_fifo_create\<close>. The four allocations are the environment's: \<open>mallocz\<close> is
  the address of the zeroed struct (or \<open>None\<close>), the three booleans tell whether
  \<open>av_buffer_create\<close> and the two \<open>sp_bufferlist_new\<close> succeed. The \<open>opaque\<close> owner is
  used for logging only. A failure returns \<open>NULL\<close> and releases what was allocated.
\<close>

record allocs =
  mallocz :: "addr option"
  buffer_create :: bool
  dests_new :: bool
  sources_new :: bool

definition sp_packet_fifo_create ::
  "allocs \<Rightarrow> 'a store \<Rightarrow> 32 word \<Rightarrow> flag set \<Rightarrow> 'a store \<times> addr option" where
  "sp_packet_fifo_create A s max_queued' block_flags' =
     (case mallocz A of
        None \<Rightarrow> (s, None)
      | Some a \<Rightarrow>
          if \<not> buffer_create A then (s, None)
          else if \<not> dests_new A then (s, None)
          else if \<not> sources_new A then (s, None)
          else (s(a := \<lparr>queued = [], max_queued = max_queued', block_flags = block_flags',
                        poked = False, lock = False, dests = [], sources = []\<rparr>), Some a))"

subsection \<open>Mirroring\<close>

text \<open>
  Modelled from the spec: the buffer list (\<open>sp_bufferlist_append\<close>, \<open>sp_bufferlist_pop\<close>,
  \<open>sp_bufferlist_iter_ref\<close> of libtxproto/utils.h) is not among the sources. The spec
  gives it as a collection of handles where \<open>append\<close> adds one reference, \<open>pop\<close> removes
  and returns the first entry that matches the predicate, and a traversal returns the
  entries one after the other; it is a list here.
\<close>

definition sp_bufferlist_append :: "addr list \<Rightarrow> addr \<Rightarrow> addr list" where
  "sp_bufferlist_append list entry = list @ [entry]"



definition sp_packet_fifo_mirror :: "'a store \<Rightarrow> addr option \<Rightarrow> addr option \<Rightarrow> 'a store \<times> int" where
  "sp_packet_fifo_mirror s dst src =
     (case (dst, src) of
        (Some d, Some sr) \<Rightarrow>
          (let s1 = s(d := (s d)\<lparr>sources := sp_bufferlist_append (sources (s d)) sr\<rparr>);
               s2 = s1(sr := (s1 sr)\<lparr>dests := sp_bufferlist_append (dests (s1 sr)) d\<rparr>)
           in (s2, 0))
      | _ \<Rightarrow> (s, AVERROR EINVAL))"



subsection \<open>Introspection\<close>

text \<open>\<open>sp_packet_fifo_is_full\<close>; the store is as before once the mutex is released.\<close>

definition sp_packet_fifo_is_full :: "'a store \<Rightarrow> addr option \<Rightarrow> int option" where
  "sp_packet_fifo_is_full s src =
     (case src of
        None \<Rightarrow> Some 0
      | Some a \<Rightarrow>
          (case mutex_lock s a of
             None \<Rightarrow> None
           | Some s1 \<Rightarrow>
               let ctx = s1 a in
               Some (if max_queued ctx = 0 then 1
                     else if 0 < sint (max_queued ctx)
                       then (if num_queued ctx > sint (max_queued ctx + 1) then 1 else 0)
                     else 0)))"

definition sp_packet_fifo_get_size :: "'a store \<Rightarrow> addr option \<Rightarrow> int option" where
  "sp_packet_fifo_get_size s src =
     (case src of
        None \<Rightarrow> Some 0
      | Some a \<Rightarrow> (case mutex_lock s a of None \<Rightarrow> None | Some s1 \<Rightarrow> Some (num_queued (s1 a))))"

subsection \<open>Parsing block flags\<close>

text \<open>
  A C string is the list of its characters before the terminating NUL; \<open>strdup\<close>
  copies up to the first NUL. \<open>strtok_r str delim\<close> is the libc function on the rest of
  the string: it skips the delimiters in front, returns \<open>None\<close> at the end of the
  string, and otherwise the token up to the next delimiter with the rest after that
  delimiter (the new \<open>saveptr\<close>).
\<close>

definition strdup :: "string \<Rightarrow> string" where
  "strdup str = takeWhile (\<lambda>c. c \<noteq> CHR 0x00) str"

definition strtok_r :: "string \<Rightarrow> string \<Rightarrow> (string \<times> string) option" where
  "strtok_r str delim =
     (let s1 = dropWhile (\<lambda>c. c \<in> set delim) str in
      if s1 = [] then None
      else Some (takeWhile (\<lambda>c. c \<notin> set delim) s1, drop 1 (dropWhile (\<lambda>c. c \<notin> set delim) s1)))"

text \<open>The \<open>while (ptr != NULL)\<close> loop of \<open>sp_packet_fifo_string_to_block_flags\<close>.\<close>

function block_flags_loop :: "flag set \<Rightarrow> string \<Rightarrow> flag set \<times> int" where
  "block_flags_loop dst saveptr =
     (case strtok_r saveptr '','' of
        None \<Rightarrow> (dst, 0)
      | Some (ptr, saveptr') \<Rightarrow>
          if ptr = ''block_no_input'' then block_flags_loop (insert BLOCK_NO_INPUT dst) saveptr'
          else if ptr = ''block_max_output'' then block_flags_loop (insert BLOCK_MAX_OUTPUT dst) saveptr'
          else if ptr = ''pull_no_block'' then block_flags_loop (insert PULL_NO_BLOCK dst) saveptr'
          else (dst, AVERROR EINVAL))"
  by pat_completeness auto
termination
proof (relation "measure (\<lambda>(dst, saveptr). length saveptr)", goal_cases)
  have shorter: "length sv < length str" if "strtok_r str '','' = Some (p, sv)"
    for str p sv :: string
  proof -
    let ?s1 = "dropWhile (\<lambda>c. c \<in> set '','') str"
    from that have ne: "?s1 \<noteq> []" and sv: "sv = drop 1 (dropWhile (\<lambda>c. c \<notin> set '','') ?s1)"
      by (auto simp: strtok_r_def Let_def split: if_splits)
    have "length sv \<le> length ?s1 - 1"
      using length_dropWhile_le [of "\<lambda>c. c \<notin> set '',''" ?s1] by (simp add: sv)
    moreover have "0 < length ?s1" using ne by simp
    moreover have "length ?s1 \<le> length str" by (rule length_dropWhile_le)
    ultimately show ?thesis by linarith
  qed
  {
    case 1
    show ?case by simp
  next
    case (2 dst saveptr x2 ptr saveptr')
    then show ?case using shorter [of saveptr ptr saveptr'] by auto
  next
    case (3 dst saveptr x2 ptr saveptr')
    then show ?case using shorter [of saveptr ptr saveptr'] by auto
  next
    case (4 dst saveptr x2 ptr saveptr')
    then show ?case using shorter [of saveptr ptr saveptr'] by auto
  }
qed

declare block_flags_loop.simps [simp del]

text \<open>The result is the flag set left in \<open>*dst\<close> and the return code.\<close>

definition sp_packet_fifo_string_to_block_flags :: "string \<Rightarrow> flag set \<times> int" where
  "sp_packet_fifo_string_to_block_flags in_str = block_flags_loop {} (strdup in_str)"

text \<open>
  The words of the spec, to compare the parser with: a comma-separated list is the
  tokens joined by single commas, \<open>flag_of_token\<close> is the flag a token names (\<open>None\<close> for
  an unknown token), and \<open>flags_of_tokens\<close> reads a list of tokens from the left, skipping
  empty ones, until the first unknown token.
\<close>

fun join_commas :: "string list \<Rightarrow> string" where
  "join_commas [] = []"
| "join_commas [t] = t"
| "join_commas (t # u # us) = t @ CHR '','' # join_commas (u # us)"

definition flag_of_token :: "string \<Rightarrow> flag option" where
  "flag_of_token t =
     (if t = ''block_no_input'' then Some BLOCK_NO_INPUT
      else if t = ''block_max_output'' then Some BLOCK_MAX_OUTPUT
      else if t = ''pull_no_block'' then Some PULL_NO_BLOCK
      else None)"

fun flags_of_tokens :: "flag set \<Rightarrow> string list \<Rightarrow> flag set \<times> int" where
  "flags_of_tokens dst [] = (dst, 0)"
| "flags_of_tokens dst (t # ts) =
     (if t = [] then flags_of_tokens dst ts
      else (case flag_of_token t of
              None \<Rightarrow> (dst, AVERROR EINVAL)
            | Some f \<Rightarrow> flags_of_tokens (insert f dst) ts))"

subsection \<open>Sequences of calls and example stores\<close>

text \<open>
  \<open>pushes\<close> pushes the items of a list into one FIFO, one call after the other, and
  collects the return codes; \<open>pops\<close> calls \<open>pop_flags\<close> a number of times and collects
  the items and return codes.
\<close>

fun pushes :: "nat \<Rightarrow> 'a env \<Rightarrow> 'a store \<Rightarrow> addr \<Rightarrow> 'a option list \<Rightarrow> ('a store \<times> int list) option" where
  "pushes k E s a [] = Some (s, [])"
| "pushes k E s a (x # xs) =
     (case sp_packet_fifo_push k E s (Some a) x of
        None \<Rightarrow> None
      | Some (s1, r) \<Rightarrow>
          (case pushes k E s1 a xs of None \<Rightarrow> None | Some (s', rs) \<Rightarrow> Some (s', r # rs)))"

fun pops :: "nat \<Rightarrow> 'a env \<Rightarrow> 'a store \<Rightarrow> addr \<Rightarrow> flag set \<Rightarrow> ('a store \<times> ('a option \<times> int) list) option" where
  "pops 0 E s a flags = Some (s, [])"
| "pops (Suc n) E s a flags =
     (case sp_packet_fifo_pop_flags E s (Some a) flags of
        None \<Rightarrow> None
      | Some (s1, out, r) \<Rightarrow>
          (case pops n E s1 a flags of None \<Rightarrow> None | Some (s', outs) \<Rightarrow> Some (s', (out, r) # outs)))"

text \<open>
  \<open>push_each\<close> pushes one item into each FIFO of a list, in order and whatever the
  calls return, and collects the return codes; \<open>first_error\<close> is the first code of a
  list that is not 0, and 0 when there is none.
\<close>

fun push_each :: "nat \<Rightarrow> 'a env \<Rightarrow> 'a store \<Rightarrow> addr list \<Rightarrow> 'a option \<Rightarrow> ('a store \<times> int list) option" where
  "push_each k E s [] item = Some (s, [])"
| "push_each k E s (d # ds) item =
     (case fifo_push k E s d item of
        None \<Rightarrow> None
      | Some (s1, r) \<Rightarrow>
          (case push_each k E s1 ds item of None \<Rightarrow> None | Some (s', rs) \<Rightarrow> Some (s', r # rs)))"

definition first_error :: "int list \<Rightarrow> int" where
  "first_error rs = (case filter (\<lambda>r. r \<noteq> 0) rs of [] \<Rightarrow> 0 | r # _ \<Rightarrow> r)"

text \<open>
  A memory of zeroed structs, an environment where every allocation succeeds and a
  clone is equal to its original, the allocations of a \<open>create\<close> that succeeds at
  a given address, and an unlocked, unpoked FIFO struct with a given queue, capacity,
  block flags and destinations.
\<close>

definition zeroed :: "'a store" where
  "zeroed = (\<lambda>a. \<lparr>queued = [], max_queued = 0, block_flags = {}, poked = False,
                   lock = False, dests = [], sources = []\<rparr>)"

definition E_ok :: "'a env" where
  "E_ok = \<lparr>av_clone = Some, av_fast_realloc = (\<lambda>n. True)\<rparr>"

definition at_addr :: "addr \<Rightarrow> allocs" where
  "at_addr a = \<lparr>mallocz = Some a, buffer_create = True, dests_new = True, sources_new = True\<rparr>"

definition fifo_of :: "'a option list \<Rightarrow> 32 word \<Rightarrow> flag set \<Rightarrow> addr list \<Rightarrow> 'a fifo" where
  "fifo_of q m fl ds = \<lparr>queued = q, max_queued = m, block_flags = fl, poked = False,
                        lock = False, dests = ds, sources = []\<rparr>"


text \<open>
  An environment where an array can hold one entry and cannot grow to two, and a
  store for fan-out: FIFO 0 buffers nothing and mirrors into the FIFOs 1 to 4, FIFO 1
  is over its capacity, FIFO 3 holds one entry.
\<close>

definition E_small :: "'a env" where
  "E_small = \<lparr>av_clone = Some, av_fast_realloc = (\<lambda>n. n < 2)\<rparr>"

definition fan_out :: "nat store" where
  "fan_out = zeroed(0 := fifo_of [] 0 {} [1, 2, 3, 4],
                    1 := fifo_of [Some 1, Some 2, Some 3] 1 {} [],
                    2 := fifo_of [] 2 {} [],
                    3 := fifo_of [Some 5] 5 {} [],
                    4 := fifo_of [] 2 {} [])"

text \<open>
  FIFO 0 with capacity \<open>m\<close> mirrored into the FIFOs 1 and 2, as three calls of \<open>create\<close>
  and two of \<open>mirror\<close> leave them, and the same store once a null item has reached the
  two destinations, with the queue \<open>q\<close> in FIFO 0.
\<close>

definition mirrored :: "32 word \<Rightarrow> nat store" where
  "mirrored m = zeroed(0 := fifo_of [] m {} [1, 2],
                       1 := (fifo_of [] 2 {} [])\<lparr>sources := [0]\<rparr>,
                       2 := (fifo_of [] 2 {} [])\<lparr>sources := [0]\<rparr>)"

definition mirrored_null :: "32 word \<Rightarrow> nat option list \<Rightarrow> nat store" where
  "mirrored_null m q = zeroed(0 := fifo_of q m {} [1, 2],
                       1 := (fifo_of [None] 2 {} [])\<lparr>sources := [0]\<rparr>,
                       2 := (fifo_of [None] 2 {} [])\<lparr>sources := [0]\<rparr>)"

text \<open>
  \<open>appended c f f'\<close>: the struct \<open>f'\<close> is \<open>f\<close> with some copies of \<open>c\<close> added at the tail
  of the queue, and none when the mutex of \<open>f\<close> is held.
\<close>

definition appended :: "'a option \<Rightarrow> 'a fifo \<Rightarrow> 'a fifo \<Rightarrow> bool" where
  "appended c f f' \<longleftrightarrow> (\<exists>n. f' = f\<lparr>queued := queued f @ replicate n c\<rparr> \<and> (lock f \<longrightarrow> n = 0))"

section \<open>Properties\<close>

lemmas errno_defs = AVERROR_def EAGAIN_def ENOMEM_def EINVAL_def ENOBUFS_def

lemma errno_nonzero: "AVERROR ENOBUFS \<noteq> 0" "AVERROR ENOMEM \<noteq> 0" "AVERROR ENOBUFS \<noteq> AVERROR ENOMEM"
  by (simp_all add: errno_defs)

lemma unlock_lock:
  "\<not> lock (s a) \<Longrightarrow> mutex_unlock (s(a := (s a)\<lparr>lock := True\<rparr>)) a = s"
  by (rule ext) (simp add: mutex_unlock_def)

subsection \<open>What a push changes\<close>

text \<open>
  A push into a FIFO whose mutex is held does not return. A push that returns has
  only appended clones of the pushed item to queues, and has left every FIFO whose
  mutex was held as it was.
\<close>

lemma fifo_push_locked: "lock (s dst) \<Longrightarrow> fifo_push k E s dst item = None"
  by (cases k) (simp_all add: mutex_lock_def)

lemma fifo_push_unlocked:
  assumes "\<not> lock (s dst)"
  shows "fifo_push (Suc k) E s dst item =
     (let ctx = s dst in
      if max_queued ctx = 0 then
        map_option (\<lambda>(s2, err). (mutex_unlock s2 dst, err))
          (distribute k E (s(dst := ctx\<lparr>lock := True\<rparr>)) (dests ctx) item 0)
      else if item \<noteq> None \<and> max_queued ctx \<noteq> - 1 \<and> num_queued ctx > sint (max_queued ctx + 1) then
        (if BLOCK_MAX_OUTPUT \<notin> block_flags ctx then Some (s, AVERROR ENOBUFS) else None)
      else if \<not> av_fast_realloc E (length (queued ctx) + 1) then Some (s, AVERROR ENOMEM)
      else
        map_option (\<lambda>(s3, err). (mutex_unlock s3 dst, err))
          (distribute k E (s(dst := ctx\<lparr>lock := True, queued := queued ctx @ [CLONE_FN E item]\<rparr>))
             (dests ctx) item 0))"
  using assms
  by (auto simp: mutex_lock_def Let_def unlock_lock num_queued_def split: option.splits)


lemma appended_refl: "appended c f f"
  unfolding appended_def by (rule exI [of _ 0]) simp

lemma appended_trans: "appended c f f' \<Longrightarrow> appended c f' f'' \<Longrightarrow> appended c f f''"
  unfolding appended_def
  apply (elim exE conjE)
  subgoal for n m
    by (rule exI [of _ "n + m"]) (auto simp: replicate_add)
  done

lemma appended_locked: "appended c f f' \<Longrightarrow> lock f \<Longrightarrow> f' = f"
  unfolding appended_def by auto

lemma appended_lock: "appended c f f' \<Longrightarrow> lock f' = lock f"
  unfolding appended_def by auto

lemma distribute_appended:
  assumes P: "\<And>s d s' r. fifo_push k E s d x = Some (s', r) \<Longrightarrow> appended (CLONE_FN E x) (s b) (s' b)"
  shows "distribute k E s ds x e = Some (s', r) \<Longrightarrow> appended (CLONE_FN E x) (s b) (s' b)"
proof (induction ds arbitrary: s e)
  case Nil
  then show ?case by (simp add: appended_refl)
next
  case (Cons d ds)
  from Cons.prems obtain s1 ret where p: "fifo_push k E s d x = Some (s1, ret)"
    by (auto split: option.splits)
  note a1 = P [OF p]
  show ?case
  proof (cases "ret = AVERROR ENOMEM")
    case True
    with Cons.prems p show ?thesis using a1 by simp
  next
    case False
    with Cons.prems p
    have "distribute k E s1 ds x (if ret \<noteq> 0 \<and> e = 0 then ret else e) = Some (s', r)"
      by simp
    from Cons.IH [OF this] a1 show ?thesis by (rule appended_trans [rotated])
  qed
qed

lemma fifo_push_appended:
  "fifo_push k E s d x = Some (s', r) \<Longrightarrow> appended (CLONE_FN E x) (s b) (s' b)"
proof (induction k arbitrary: s d s' r)
  case 0
  then show ?case by simp
next
  case (Suc k)
  have nl: "\<not> lock (s d)"
    using Suc.prems fifo_push_locked [of s d "Suc k" E x] by auto
  let ?c = "CLONE_FN E x"
  have D: "appended ?c (s0 b) (s1 b)" if "distribute k E s0 ds x e = Some (s1, r1)" for s0 ds e s1 r1
    using that by (rule distribute_appended [rotated]) (rule Suc.IH)
  have unlock: "appended ?c (s b) (mutex_unlock s3 d b)"
    if d: "distribute k E (s(d := (s d)\<lparr>lock := True, queued := queued (s d) @ replicate n ?c\<rparr>)) ds x 0 = Some (s3, r3)"
    for s3 r3 ds n
  proof (cases "b = d")
    case False
    with D [OF d] show ?thesis by (simp add: mutex_unlock_def)
  next
    case True
    from D [OF d] True have "s3 d = (s d)\<lparr>lock := True, queued := queued (s d) @ replicate n ?c\<rparr>"
      by (auto dest: appended_locked)
    then show ?thesis using nl True
      unfolding appended_def mutex_unlock_def
      by (intro exI [of _ n]) simp
  qed
  from Suc.prems show ?case
    unfolding fifo_push_unlocked [where s = s and dst = d, OF nl] Let_def
    using unlock [of 0] unlock [of "Suc 0"]
    by (auto simp: appended_refl split: if_splits)
qed


lemma distribute_locked_frame:
  "distribute k E s ds x e = Some (s', r) \<Longrightarrow> lock (s b) \<Longrightarrow> s' b = s b"
  by (rule appended_locked [OF distribute_appended [OF fifo_push_appended]])

text \<open>
  A call that returns with some fuel returns the same with any larger fuel: the
  result of a push does not depend on the fuel.
\<close>

lemma distribute_more_fuel:
  assumes P: "\<And>s d r. fifo_push k E s d x = Some r \<Longrightarrow> fifo_push (Suc k) E s d x = Some r"
  shows "distribute k E s ds x e = Some r \<Longrightarrow> distribute (Suc k) E s ds x e = Some r"
proof (induction ds arbitrary: s e)
  case Nil
  then show ?case by simp
next
  case (Cons d ds)
  from Cons.prems obtain s1 ret where p: "fifo_push k E s d x = Some (s1, ret)"
    by (auto split: option.splits)
  note p' = P [OF p]
  show ?case
  proof (cases "ret = AVERROR ENOMEM")
    case True
    with Cons.prems p p' show ?thesis by (auto simp del: fifo_push.simps)
  next
    case False
    with Cons.prems p
    have "distribute k E s1 ds x (if ret \<noteq> 0 \<and> e = 0 then ret else e) = Some r"
      by simp
    from Cons.IH [OF this] p' False show ?thesis by (simp del: fifo_push.simps)
  qed
qed

lemma fifo_push_more_fuel:
  "fifo_push k E s d x = Some r \<Longrightarrow> fifo_push (Suc k) E s d x = Some r"
proof (induction k arbitrary: s d r)
  case 0
  then show ?case by simp
next
  case (Suc k)
  have nl: "\<not> lock (s d)"
    using Suc.prems fifo_push_locked [of s d "Suc k" E x] by auto
  have D: "distribute (Suc k) E s0 ds x e = Some r0" if "distribute k E s0 ds x e = Some r0" for s0 ds e r0
    using that by (rule distribute_more_fuel [rotated]) (rule Suc.IH)
  from Suc.prems show ?case
    unfolding fifo_push_unlocked [where s = s and dst = d, OF nl] Let_def
    by (auto split: if_splits dest!: D)
qed

lemma fifo_push_fuel_mono:
  "k \<le> k' \<Longrightarrow> fifo_push k E s d x = Some r \<Longrightarrow> fifo_push k' E s d x = Some r"
  by (induction rule: dec_induct) (auto intro: fifo_push_more_fuel simp del: fifo_push.simps)

text \<open>What a push that returned does to its own FIFO.\<close>

lemma fifo_push_local:
  assumes "fifo_push k E s a x = Some (s', r)"
  shows "\<not> lock (s a)"
    and "max_queued (s a) = 0 \<Longrightarrow> s' a = s a"
    and "max_queued (s a) \<noteq> 0 \<Longrightarrow>
           x \<noteq> None \<and> max_queued (s a) \<noteq> - 1 \<and> num_queued (s a) > sint (max_queued (s a) + 1) \<Longrightarrow>
           s' = s \<and> r = AVERROR ENOBUFS \<and> BLOCK_MAX_OUTPUT \<notin> block_flags (s a)"
    and "max_queued (s a) \<noteq> 0 \<Longrightarrow>
           \<not> (x \<noteq> None \<and> max_queued (s a) \<noteq> - 1 \<and> num_queued (s a) > sint (max_queued (s a) + 1)) \<Longrightarrow>
           \<not> av_fast_realloc E (length (queued (s a)) + 1) \<Longrightarrow> s' = s \<and> r = AVERROR ENOMEM"
    and "max_queued (s a) \<noteq> 0 \<Longrightarrow>
           \<not> (x \<noteq> None \<and> max_queued (s a) \<noteq> - 1 \<and> num_queued (s a) > sint (max_queued (s a) + 1)) \<Longrightarrow>
           av_fast_realloc E (length (queued (s a)) + 1) \<Longrightarrow>
           s' a = (s a)\<lparr>queued := queued (s a) @ [CLONE_FN E x]\<rparr>"
proof -
  show nl: "\<not> lock (s a)"
    using assms fifo_push_locked [of s a k E x] by auto
  obtain j where k: "k = Suc j" using assms by (cases k) auto
  note unf = assms [unfolded k fifo_push_unlocked [where s = s and dst = a, OF nl] Let_def]
  have fr: "s3 a = f" if "distribute j E (s(a := f)) ds x 0 = Some (s3, r3)" "lock f" for s3 r3 f ds
    using distribute_locked_frame [OF that(1), of a] that(2) by simp
  show "s' a = s a" if "max_queued (s a) = 0"
    using unf that nl by (auto simp: mutex_unlock_def dest!: fr)
  show "s' = s \<and> r = AVERROR ENOBUFS \<and> BLOCK_MAX_OUTPUT \<notin> block_flags (s a)"
    if "max_queued (s a) \<noteq> 0"
      "x \<noteq> None \<and> max_queued (s a) \<noteq> - 1 \<and> num_queued (s a) > sint (max_queued (s a) + 1)"
    using unf that by (auto split: if_splits)
  show "s' = s \<and> r = AVERROR ENOMEM"
    if "max_queued (s a) \<noteq> 0"
      "\<not> (x \<noteq> None \<and> max_queued (s a) \<noteq> - 1 \<and> num_queued (s a) > sint (max_queued (s a) + 1))"
      "\<not> av_fast_realloc E (length (queued (s a)) + 1)"
    using unf that by (auto split: if_splits)
  show "s' a = (s a)\<lparr>queued := queued (s a) @ [CLONE_FN E x]\<rparr>"
    if "max_queued (s a) \<noteq> 0"
      "\<not> (x \<noteq> None \<and> max_queued (s a) \<noteq> - 1 \<and> num_queued (s a) > sint (max_queued (s a) + 1))"
      "av_fast_realloc E (length (queued (s a)) + 1)"
    using unf that nl by (auto simp: mutex_unlock_def split: if_splits dest!: fr)
qed

subsection \<open>Signed increment of a C int\<close>

text \<open>
  \<open>max_queued + 1\<close> for a positive \<open>max_queued\<close>: the successor below \<open>INT_MAX\<close>, a negative
  number at \<open>INT_MAX\<close>.
\<close>

lemma sint_plus_1:
  fixes m :: "32 word"
  shows "sint (m + 1) = signed_take_bit 31 (sint m + 1)"
  by (simp add: sint_word_ariths)

lemma sint_succ:
  fixes m :: "32 word"
  assumes "0 < sint m" "sint m < 2 ^ 31 - 1"
  shows "sint (m + 1) = sint m + 1"
  unfolding sint_plus_1 using assms by (intro signed_take_bit_int_eq_self) simp_all

lemma sint_succ_max:
  fixes m :: "32 word"
  assumes "0 < sint m" "\<not> sint m < 2 ^ 31 - 1"
  shows "sint (m + 1) < 0"
proof -
  have "sint m < 2 ^ 31" using sint_lt [of m] by simp
  with assms have "sint m + 1 = 2 ^ 31" by simp
  then have "sint (m + 1) = signed_take_bit 31 (2 ^ 31 :: int)" by (simp add: sint_plus_1)
  also have "\<dots> \<le> 2 ^ 31 - 2 ^ Suc 31" by (rule signed_take_bit_int_less_eq) simp
  finally show ?thesis by simp
qed

subsection \<open>Successful pushes\<close>

text \<open>
  A push that returned 0 into a FIFO with \<open>max_queued \<noteq> 0\<close> passed the capacity test and
  appended its clone; so does a sequence of such pushes.
\<close>

lemma push_ok_local:
  assumes "fifo_push k E s a x = Some (s', 0)" "max_queued (s a) \<noteq> 0"
  shows "s' a = (s a)\<lparr>queued := queued (s a) @ [CLONE_FN E x]\<rparr>"
    and "\<not> (x \<noteq> None \<and> max_queued (s a) \<noteq> - 1 \<and> num_queued (s a) > sint (max_queued (s a) + 1))"
    and "\<not> lock (s a)"
  using fifo_push_local [OF assms(1)] assms(2) errno_nonzero
  by metis+

lemma pushes_ok:
  assumes "pushes k E s a xs = Some (s', rs)" "\<forall>r\<in>set rs. r = 0" "max_queued (s a) \<noteq> 0"
  shows "s' a = (s a)\<lparr>queued := queued (s a) @ map (CLONE_FN E) xs\<rparr>"
  using assms
proof (induction xs arbitrary: s rs)
  case Nil
  then show ?case by simp
next
  case (Cons x xs)
  from Cons.prems(1) obtain s1 r rs' where
    p: "fifo_push k E s a x = Some (s1, r)" and ps: "pushes k E s1 a xs = Some (s', rs')" and rs: "rs = r # rs'"
    by (auto simp: sp_packet_fifo_push_def split: option.splits)
  from rs Cons.prems(2) have r: "r = 0" and rs': "\<forall>r\<in>set rs'. r = 0" by simp_all
  note l = push_ok_local(1) [OF p [unfolded r] Cons.prems(3)]
  then have m: "max_queued (s1 a) \<noteq> 0" using Cons.prems(3) by simp
  from Cons.IH [OF ps rs' m] l show ?case by simp
qed

lemmas example_defs = sp_packet_fifo_create_def at_addr_def zeroed_def E_ok_def fifo_of_def
lemmas call_defs = sp_packet_fifo_push_def mutex_lock_def mutex_unlock_def num_queued_def CLONE_FN_def

subsection \<open>Capacity\<close>

text \<open>
  C1 as stated fails. On a FIFO created with \<open>max_queued = 2\<close> and no block flags, the
  pushes 1 to 3 return 0 and the fourth push returns 0 as well, not queue-full: the
  guard of push compares the count \<^emph>\<open>before\<close> the push, here 3, with \<open>max_queued + 1\<close>.
\<close>

theorem fourth_push_not_full_counterexample:
  "pushes (Suc 0) E_ok (fst (sp_packet_fifo_create (at_addr 0) zeroed 2 {})) 0 [Some 1, Some 2, Some (3::nat)]
     = Some (zeroed(0 := fifo_of [Some 1, Some 2, Some 3] 2 {} []), [0, 0, 0])
   \<and> sp_packet_fifo_push (Suc 0) E_ok (zeroed(0 := fifo_of [Some 1, Some 2, Some (3::nat)] 2 {} [])) (Some 0) (Some 4)
     = Some (zeroed(0 := fifo_of [Some 1, Some 2, Some 3, Some 4] 2 {} []), 0)
   \<and> 0 \<noteq> AVERROR ENOBUFS"
  by (simp add: example_defs call_defs errno_defs)

text \<open>
  C1, amended. On a FIFO with an empty queue, \<open>max_queued = N > 0\<close> and
  \<open>BLOCK_MAX_OUTPUT\<close> not set, after \<open>N + 2\<close> pushes of non-null items that all returned 0,
  with no pop in between, the next push of a non-null item, the \<open>(N + 3)\<close>th, returns
  queue-full and leaves the store as it is (with \<open>N = 2\<close>: pushes 1 to 4 return 0 and
  push 5 returns queue-full).
\<close>

theorem push_queue_full_after:
  assumes "queued (s a) = []" and "0 < sint (max_queued (s a))"
    and "BLOCK_MAX_OUTPUT \<notin> block_flags (s a)"
    and "pushes k E s a (map Some xs) = Some (s', replicate (length xs) 0)"
    and "int (length xs) = sint (max_queued (s a)) + 2"
  shows "sp_packet_fifo_push (Suc j) E s' (Some a) (Some y) = Some (s', AVERROR ENOBUFS)"
proof -
  define rs :: "int list" where "rs = replicate (length xs) 0"
  have all0: "\<forall>r\<in>set rs. r = 0" by (simp add: rs_def)
  note ps = assms(4) [folded rs_def]
  let ?m = "max_queued (s a)"
  have m0: "?m \<noteq> 0" and m1: "?m \<noteq> - 1" using assms(2) by auto
  from assms(2,5) obtain x xs' where xs: "xs = x # xs'" by (cases xs) auto
  from ps obtain s1 r rs' where
    p: "fifo_push k E s a (Some x) = Some (s1, r)" and rs: "rs = r # rs'"
    by (auto simp: xs sp_packet_fifo_push_def split: option.splits)
  with all0 have p0: "fifo_push k E s a (Some x) = Some (s1, 0)" by simp
  from push_ok_local(2,3) [OF p0 m0] m1 assms(1)
  have "0 \<le> sint (?m + 1)" and nl: "\<not> lock (s a)" by (simp_all add: num_queued_def)
  with sint_succ_max [OF assms(2)] have "sint ?m < 2 ^ 31 - 1" by fastforce
  from sint_succ [OF assms(2) this] have succ: "sint (?m + 1) = sint ?m + 1" .
  have s': "s' a = (s a)\<lparr>queued := map (CLONE_FN E) (map Some xs)\<rparr>"
    using pushes_ok [OF ps all0 m0] assms(1) by simp
  have "\<not> lock (s' a)" using nl by (simp add: s')
  from fifo_push_unlocked [where s = s' and dst = a, OF this, of j E "Some y"]
  show ?thesis
    using m0 m1 succ assms(3,5)
    by (simp add: sp_packet_fifo_push_def s' Let_def num_queued_def)
qed

theorem push_queue_full_after_witness:
  "queued ((zeroed(0 := fifo_of [] 2 {} []) :: nat store) 0) = []
   \<and> 0 < sint (max_queued ((zeroed(0 := fifo_of [] 2 {} []) :: nat store) 0))
   \<and> BLOCK_MAX_OUTPUT \<notin> block_flags ((zeroed(0 := fifo_of [] 2 {} []) :: nat store) 0)
   \<and> pushes (Suc 0) E_ok (zeroed(0 := fifo_of [] 2 {} [])) 0 (map Some [1, 2, 3, 4::nat])
       = Some (zeroed(0 := fifo_of [Some 1, Some 2, Some 3, Some 4] 2 {} []), replicate (length [1, 2, 3, 4::nat]) 0)
   \<and> int (length [1, 2, 3, 4::nat]) = sint (max_queued ((zeroed(0 := fifo_of [] 2 {} []) :: nat store) 0)) + 2
   \<and> sp_packet_fifo_push (Suc 0) E_ok (zeroed(0 := fifo_of [Some 1, Some 2, Some 3, Some 4] 2 {} [])) (Some 0) (Some (5::nat))
       = Some (zeroed(0 := fifo_of [Some 1, Some 2, Some 3, Some 4] 2 {} []), AVERROR ENOBUFS)"
proof -
  let ?s = "(zeroed(0 := fifo_of [] 2 {} []) :: nat store)"
  let ?s' = "(zeroed(0 := fifo_of [Some 1, Some 2, Some 3, Some 4] 2 {} []) :: nat store)"
  have h1: "queued (?s 0) = []" and h2: "0 < sint (max_queued (?s 0))"
    and h3: "BLOCK_MAX_OUTPUT \<notin> block_flags (?s 0)"
    and h5: "int (length [1, 2, 3, 4::nat]) = sint (max_queued (?s 0)) + 2"
    by (simp_all add: fifo_of_def)
  have h4: "pushes (Suc 0) E_ok ?s 0 (map Some [1, 2, 3, 4::nat])
      = Some (?s', replicate (length [1, 2, 3, 4::nat]) 0)"
    by (simp add: example_defs call_defs errno_defs numeral_eq_Suc)
  from push_queue_full_after [where s = ?s and a = 0, OF h1 h2 h3 h4 h5, of 0 5] h1 h2 h3 h4 h5
  show ?thesis by blast
qed

subsection \<open>The full test\<close>

text \<open>
  C7 as stated fails in its last sentence. Push refuses a non-null item on the very
  condition \<open>is_full\<close> reports, so where \<open>is_full\<close> reports true by one (\<open>max_queued = 2\<close>
  with 4 entries queued, reached by four pushes after create) a push of a non-null item
  returns queue-full and stores nothing.
\<close>

theorem push_when_full_counterexample:
  "pushes (Suc 0) E_ok (fst (sp_packet_fifo_create (at_addr 0) zeroed 2 {})) 0
       [Some 1, Some 2, Some 3, Some (4::nat)]
     = Some (zeroed(0 := fifo_of [Some 1, Some 2, Some 3, Some 4] 2 {} []), [0, 0, 0, 0])
   \<and> sp_packet_fifo_is_full (zeroed(0 := fifo_of [Some 1, Some 2, Some 3, Some (4::nat)] 2 {} [])) (Some 0)
     = Some 1
   \<and> sp_packet_fifo_push (Suc 0) E_ok (zeroed(0 := fifo_of [Some 1, Some 2, Some 3, Some (4::nat)] 2 {} []))
       (Some 0) (Some 5)
     = Some (zeroed(0 := fifo_of [Some 1, Some 2, Some 3, Some 4] 2 {} []), AVERROR ENOBUFS)
   \<and> AVERROR ENOBUFS \<noteq> 0"
  by (simp add: example_defs call_defs errno_defs sp_packet_fifo_is_full_def)

text \<open>
  C7, amended. \<open>is_full\<close> returns true iff \<open>max_queued == 0\<close>, or \<open>max_queued > 0\<close> and
  \<open>num_queued > max_queued + 1\<close> (the sum is the 32-bit sum of the C code; it is the
  mathematical one unless \<open>max_queued = INT_MAX\<close>); with \<open>max_queued == -1\<close> it returns
  false. On a bounded FIFO without \<open>BLOCK_MAX_OUTPUT\<close>, once \<open>is_full\<close> reports true a push
  of a non-null item returns queue-full and leaves the store as it is. An item can
  still be pushed when \<open>num_queued = max_queued + 1\<close>: there \<open>is_full\<close> reports false, a
  push into a FIFO without destinations stores the clone and returns 0 when the array
  can grow, and every push that returns anything but out-of-memory has stored the clone.
  The caller does not hold the mutex of the FIFO.
\<close>

theorem is_full_exact:
  assumes "\<not> lock (s a)"
  shows "sp_packet_fifo_is_full s (Some a) =
           Some (if max_queued (s a) = 0 \<or>
                    0 < sint (max_queued (s a)) \<and> num_queued (s a) > sint (max_queued (s a) + 1)
                 then 1 else 0)
       \<and> (max_queued (s a) = - 1 \<longrightarrow> sp_packet_fifo_is_full s (Some a) = Some 0)
       \<and> (0 < sint (max_queued (s a)) \<and> BLOCK_MAX_OUTPUT \<notin> block_flags (s a) \<and>
            sp_packet_fifo_is_full s (Some a) = Some 1 \<longrightarrow>
            sp_packet_fifo_push (Suc k) E s (Some a) (Some x) = Some (s, AVERROR ENOBUFS))
       \<and> (0 < sint (max_queued (s a)) \<and> sint (max_queued (s a)) < 2 ^ 31 - 1 \<and>
            num_queued (s a) = sint (max_queued (s a)) + 1 \<longrightarrow>
            sp_packet_fifo_is_full s (Some a) = Some 0 \<and>
            (dests (s a) = [] \<and> av_fast_realloc E (length (queued (s a)) + 1) \<longrightarrow>
               sp_packet_fifo_push (Suc k) E s (Some a) (Some x) =
                 Some (s(a := (s a)\<lparr>queued := queued (s a) @ [CLONE_FN E (Some x)]\<rparr>), 0)) \<and>
            (\<forall>s' r. sp_packet_fifo_push k E s (Some a) (Some x) = Some (s', r) \<and> r \<noteq> AVERROR ENOMEM \<longrightarrow>
               queued (s' a) = queued (s a) @ [CLONE_FN E (Some x)]))"
proof -
  let ?m = "max_queued (s a)"
  let ?full = "sp_packet_fifo_is_full s (Some a)"
  have full: "?full = Some (if ?m = 0 \<or> 0 < sint ?m \<and> num_queued (s a) > sint (?m + 1) then 1 else 0)"
    using assms by (simp add: sp_packet_fifo_is_full_def mutex_lock_def Let_def num_queued_def)
  have unb: "?full = Some 0" if "?m = - 1"
    using that by (simp add: full)
  have refuse: "sp_packet_fifo_push (Suc k) E s (Some a) (Some x) = Some (s, AVERROR ENOBUFS)"
    if "0 < sint ?m" "BLOCK_MAX_OUTPUT \<notin> block_flags (s a)" "?full = Some 1"
  proof -
    from that(1) have "?m \<noteq> 0" "?m \<noteq> - 1" by auto
    moreover from that(1,3) \<open>?m \<noteq> 0\<close> have "num_queued (s a) > sint (?m + 1)"
      by (simp add: full split: if_splits)
    ultimately show ?thesis
      using that(2) fifo_push_unlocked [where s = s and dst = a, OF assms, of k E "Some x"]
      by (simp add: sp_packet_fifo_push_def Let_def)
  qed
  have room: "?full = Some 0 \<and>
      (dests (s a) = [] \<and> av_fast_realloc E (length (queued (s a)) + 1) \<longrightarrow>
         sp_packet_fifo_push (Suc k) E s (Some a) (Some x) =
           Some (s(a := (s a)\<lparr>queued := queued (s a) @ [CLONE_FN E (Some x)]\<rparr>), 0)) \<and>
      (\<forall>s' r. sp_packet_fifo_push k E s (Some a) (Some x) = Some (s', r) \<and> r \<noteq> AVERROR ENOMEM \<longrightarrow>
         queued (s' a) = queued (s a) @ [CLONE_FN E (Some x)])"
    if "0 < sint ?m" "sint ?m < 2 ^ 31 - 1" "num_queued (s a) = sint ?m + 1"
  proof -
    from that(1) have m0: "?m \<noteq> 0" by auto
    have ng: "\<not> num_queued (s a) > sint (?m + 1)"
      using sint_succ [OF that(1,2)] that(3) by simp
    have "queued (s' a) = queued (s a) @ [CLONE_FN E (Some x)]"
      if p: "fifo_push k E s a (Some x) = Some (s', r)" and r: "r \<noteq> AVERROR ENOMEM" for s' r
      using fifo_push_local(4,5) [OF p m0] ng r
      by (cases "av_fast_realloc E (length (queued (s a)) + 1)") auto
    moreover have "sp_packet_fifo_push (Suc k) E s (Some a) (Some x) =
           Some (s(a := (s a)\<lparr>queued := queued (s a) @ [CLONE_FN E (Some x)]\<rparr>), 0)"
      if "dests (s a) = []" "av_fast_realloc E (length (queued (s a)) + 1)"
    proof -
      have "mutex_unlock (s(a := (s a)\<lparr>lock := True, queued := q\<rparr>)) a = s(a := (s a)\<lparr>queued := q\<rparr>)" for q
        using assms by (intro ext) (simp add: mutex_unlock_def)
      with that m0 ng show ?thesis
        unfolding sp_packet_fifo_push_def option.case
          fifo_push_unlocked [where s = s and dst = a, OF assms, of k E "Some x"]
        by (simp add: Let_def del: fifo_push.simps)
    qed
    ultimately show ?thesis using m0 ng by (simp add: full sp_packet_fifo_push_def)
  qed
  from full unb refuse room show ?thesis by blast
qed

theorem is_full_exact_witness:
  "\<not> lock ((zeroed(0 := fifo_of [Some 1, Some 2, Some 3, Some (4::nat)] 2 {} [])) 0)
   \<and> 0 < sint (max_queued ((zeroed(0 := fifo_of [Some 1, Some 2, Some 3, Some (4::nat)] 2 {} [])) 0))
   \<and> BLOCK_MAX_OUTPUT \<notin> block_flags ((zeroed(0 := fifo_of [Some 1, Some 2, Some 3, Some (4::nat)] 2 {} [])) 0)
   \<and> sp_packet_fifo_is_full (zeroed(0 := fifo_of [Some 1, Some 2, Some 3, Some (4::nat)] 2 {} [])) (Some 0) = Some 1
   \<and> sp_packet_fifo_push (Suc 0) E_ok (zeroed(0 := fifo_of [Some 1, Some 2, Some 3, Some (4::nat)] 2 {} []))
        (Some 0) (Some 5)
      = Some (zeroed(0 := fifo_of [Some 1, Some 2, Some 3, Some 4] 2 {} []), AVERROR ENOBUFS)
   \<and> \<not> lock ((zeroed(0 := fifo_of [Some 1, Some 2, Some (3::nat)] 2 {} [])) 0)
   \<and> sint (max_queued ((zeroed(0 := fifo_of [Some 1, Some 2, Some (3::nat)] 2 {} [])) 0)) < 2 ^ 31 - 1
   \<and> num_queued ((zeroed(0 := fifo_of [Some 1, Some 2, Some (3::nat)] 2 {} [])) 0)
      = sint (max_queued ((zeroed(0 := fifo_of [Some 1, Some 2, Some (3::nat)] 2 {} [])) 0)) + 1
   \<and> dests ((zeroed(0 := fifo_of [Some 1, Some 2, Some (3::nat)] 2 {} [])) 0) = []
   \<and> av_fast_realloc (E_ok :: nat env) (length (queued ((zeroed(0 := fifo_of [Some 1, Some 2, Some (3::nat)] 2 {} [])) 0)) + 1)
   \<and> sp_packet_fifo_is_full (zeroed(0 := fifo_of [Some 1, Some 2, Some (3::nat)] 2 {} [])) (Some 0) = Some 0
   \<and> sp_packet_fifo_push (Suc 0) E_ok (zeroed(0 := fifo_of [Some 1, Some 2, Some (3::nat)] 2 {} []))
        (Some 0) (Some 4)
      = Some (zeroed(0 := fifo_of [Some 1, Some 2, Some 3, Some 4] 2 {} []), 0)"
proof -
  let ?s4 = "zeroed(0 := fifo_of [Some 1, Some 2, Some 3, Some (4::nat)] 2 {} [])"
  let ?s3 = "zeroed(0 := fifo_of [Some 1, Some 2, Some (3::nat)] 2 {} [])"
  have a: "\<not> lock (?s4 0)" "0 < sint (max_queued (?s4 0))" "BLOCK_MAX_OUTPUT \<notin> block_flags (?s4 0)"
    "sp_packet_fifo_is_full ?s4 (Some 0) = Some 1"
    by (simp_all add: fifo_of_def sp_packet_fifo_is_full_def mutex_lock_def num_queued_def)
  have b: "\<not> lock (?s3 0)" "0 < sint (max_queued (?s3 0))" "sint (max_queued (?s3 0)) < 2 ^ 31 - 1"
    "num_queued (?s3 0) = sint (max_queued (?s3 0)) + 1" "dests (?s3 0) = []"
    "av_fast_realloc (E_ok :: nat env) (length (queued (?s3 0)) + 1)"
    by (simp_all add: fifo_of_def num_queued_def E_ok_def)
  have upd: "?s3(0 := (?s3 0)\<lparr>queued := queued (?s3 0) @ [CLONE_FN E_ok (Some 4)]\<rparr>) = ?s4"
    by (simp add: fifo_of_def CLONE_FN_def E_ok_def)
  from is_full_exact [where s = ?s4 and a = 0 and k = 0 and E = E_ok and x = 5, OF a(1)] a
  have 1: "sp_packet_fifo_push (Suc 0) E_ok ?s4 (Some 0) (Some 5) = Some (?s4, AVERROR ENOBUFS)"
    by blast
  from is_full_exact [where s = ?s3 and a = 0 and k = 0 and E = E_ok and x = 4, OF b(1)] b
  have 2: "sp_packet_fifo_is_full ?s3 (Some 0) = Some 0"
    and "sp_packet_fifo_push (Suc 0) E_ok ?s3 (Some 0) (Some 4) =
      Some (?s3(0 := (?s3 0)\<lparr>queued := queued (?s3 0) @ [CLONE_FN E_ok (Some 4)]\<rparr>), 0)"
    by blast+
  then have 3: "sp_packet_fifo_push (Suc 0) E_ok ?s3 (Some 0) (Some 4) = Some (?s4, 0)"
    by (simp only: upd)
  from a b 1 2 3 show ?thesis by blast
qed

subsection \<open>Mirror and unmirror\<close>




subsection \<open>Parsing block flags\<close>

lemma strtok_r_nil: "strtok_r [] '','' = None"
  by (simp add: strtok_r_def)

lemma strtok_r_comma: "strtok_r (CHR '','' # rest) '','' = strtok_r rest '',''"
  by (simp add: strtok_r_def)

lemma strtok_r_token:
  assumes "CHR '','' \<notin> set t" "t \<noteq> []"
  shows "strtok_r t '','' = Some (t, [])"
    and "strtok_r (t @ CHR '','' # rest) '','' = Some (t, rest)"
proof -
  let ?P = "\<lambda>c. c \<notin> set '',''"
  have d0: "dropWhile (\<lambda>c. c \<in> set '','') (t @ r) = t @ r" for r
    using assms by (cases t) auto
  have tw: "takeWhile ?P (t @ r) = t @ takeWhile ?P r" for r
    by (rule takeWhile_append2) (use assms(1) in auto)
  have dw: "dropWhile ?P (t @ r) = dropWhile ?P r" for r
    by (rule dropWhile_append2) (use assms(1) in auto)
  have gen: "strtok_r (t @ r) '','' = Some (t @ takeWhile ?P r, drop 1 (dropWhile ?P r))" for r
    unfolding strtok_r_def Let_def d0 tw dw using assms(2) by simp
  from gen [of "[]"] show "strtok_r t '','' = Some (t, [])" by simp
  from gen [of "CHR '','' # rest"] show "strtok_r (t @ CHR '','' # rest) '','' = Some (t, rest)" by simp
qed

lemma block_flags_loop_nil: "block_flags_loop dst [] = (dst, 0)"
  by (simp add: block_flags_loop.simps [of dst "[]"] strtok_r_nil)

lemma block_flags_loop_comma: "block_flags_loop dst (CHR '','' # rest) = block_flags_loop dst rest"
  by (simp add: block_flags_loop.simps [of dst "CHR '','' # rest"] block_flags_loop.simps [of dst rest]
      strtok_r_comma)

lemma block_flags_loop_token:
  assumes "CHR '','' \<notin> set t" "t \<noteq> []"
  shows "block_flags_loop dst t =
           (case flag_of_token t of None \<Rightarrow> (dst, AVERROR EINVAL) | Some f \<Rightarrow> (insert f dst, 0))"
    and "block_flags_loop dst (t @ CHR '','' # rest) =
           (case flag_of_token t of None \<Rightarrow> (dst, AVERROR EINVAL)
            | Some f \<Rightarrow> block_flags_loop (insert f dst) rest)"
proof -
  show "block_flags_loop dst t =
           (case flag_of_token t of None \<Rightarrow> (dst, AVERROR EINVAL) | Some f \<Rightarrow> (insert f dst, 0))"
    unfolding block_flags_loop.simps [of dst t] strtok_r_token(1) [OF assms]
    by (simp add: flag_of_token_def block_flags_loop_nil)
  show "block_flags_loop dst (t @ CHR '','' # rest) =
           (case flag_of_token t of None \<Rightarrow> (dst, AVERROR EINVAL)
            | Some f \<Rightarrow> block_flags_loop (insert f dst) rest)"
    unfolding block_flags_loop.simps [of dst "t @ CHR '','' # rest"] strtok_r_token(2) [OF assms]
    by (simp add: flag_of_token_def)
qed

lemma block_flags_loop_join:
  "\<forall>t\<in>set ts. CHR '','' \<notin> set t \<Longrightarrow> block_flags_loop dst (join_commas ts) = flags_of_tokens dst ts"
proof (induction ts arbitrary: dst rule: join_commas.induct)
  case 1
  show ?case by (simp add: block_flags_loop_nil)
next
  case (2 t)
  then show ?case
    by (cases "t = []") (simp_all add: block_flags_loop_nil block_flags_loop_token split: option.splits)
next
  case (3 t u us)
  then show ?case
    by (cases "t = []") (simp_all add: block_flags_loop_comma block_flags_loop_token split: option.splits)
qed


lemma flag_of_token_chars:
  "flag_of_token t \<noteq> None \<Longrightarrow> t \<noteq> [] \<and> CHR '','' \<notin> set t \<and> CHR 0x00 \<notin> set t"
  by (auto simp: flag_of_token_def split: if_splits)

lemma flags_of_valid_tokens:
  "\<forall>t\<in>set ts. flag_of_token t \<noteq> None \<Longrightarrow>
   flags_of_tokens dst ts = (dst \<union> {f. \<exists>t\<in>set ts. flag_of_token t = Some f}, 0)"
proof (induction ts arbitrary: dst)
  case Nil
  show ?case by simp
next
  case (Cons t ts)
  from Cons.prems obtain f where f: "flag_of_token t = Some f" by auto
  with flag_of_token_chars [of t] have "t \<noteq> []" by simp
  with f Cons show ?case by auto
qed

lemma flags_of_tokens_unknown:
  "\<forall>t\<in>set vs. flag_of_token t \<noteq> None \<Longrightarrow> bad \<noteq> [] \<Longrightarrow> flag_of_token bad = None \<Longrightarrow>
   flags_of_tokens dst (vs @ bad # rest) = (dst \<union> {f. \<exists>t\<in>set vs. flag_of_token t = Some f}, AVERROR EINVAL)"
proof (induction vs arbitrary: dst)
  case Nil
  then show ?case by simp
next
  case (Cons t ts)
  from Cons.prems obtain f where f: "flag_of_token t = Some f" by auto
  with flag_of_token_chars [of t] have "t \<noteq> []" by simp
  with f Cons show ?case by auto
qed

lemma flags_of_tokens_invalid:
  "\<exists>t\<in>set ts. t \<noteq> [] \<and> flag_of_token t = None \<Longrightarrow> snd (flags_of_tokens dst ts) = AVERROR EINVAL"
  by (induction ts arbitrary: dst) (auto split: option.splits)

lemma set_join_commas: "set (join_commas ts) \<subseteq> insert (CHR '','') (\<Union>t\<in>set ts. set t)"
  by (induction ts rule: join_commas.induct) auto

lemma strdup_join_commas:
  assumes "\<forall>t\<in>set ts. CHR 0x00 \<notin> set t"
  shows "strdup (join_commas ts) = join_commas ts"
proof -
  have "CHR 0x00 \<notin> set (join_commas ts)"
    using set_join_commas [of ts] assms by auto
  then show ?thesis
    unfolding strdup_def by (intro takeWhile_eq_all_conv [THEN iffD2]) auto
qed

lemma string_to_block_flags_join:
  assumes "\<forall>t\<in>set ts. CHR '','' \<notin> set t \<and> CHR 0x00 \<notin> set t"
  shows "sp_packet_fifo_string_to_block_flags (join_commas ts) = flags_of_tokens {} ts"
  using assms
  by (simp add: sp_packet_fifo_string_to_block_flags_def strdup_join_commas block_flags_loop_join)

text \<open>
  C5. For a comma-separated list of tokens that are all among \<open>block_no_input\<close>,
  \<open>block_max_output\<close> and \<open>pull_no_block\<close>, \<open>string_to_block_flags\<close> returns 0 and the flag
  set is the union of the flags the tokens name. An input with an unknown token (a
  non-empty token that is none of the three, among tokens free of commas and NUL)
  returns invalid-argument. \<open>"block_no_input,pull_no_block"\<close> gives exactly
  \<open>{BLOCK_NO_INPUT, PULL_NO_BLOCK}\<close> and 0, and \<open>"bogus"\<close> returns invalid-argument.
  (\<open>strtok_r\<close> skips empty tokens: they are neither flags nor errors.)
\<close>

theorem string_to_block_flags_tokens:
  "((\<forall>t\<in>set ts. flag_of_token t \<noteq> None) \<longrightarrow>
      sp_packet_fifo_string_to_block_flags (join_commas ts)
        = ({f. \<exists>t\<in>set ts. flag_of_token t = Some f}, 0))
   \<and> ((\<forall>t\<in>set ts. CHR '','' \<notin> set t \<and> CHR 0x00 \<notin> set t) \<and>
        (\<exists>t\<in>set ts. t \<noteq> [] \<and> flag_of_token t = None) \<longrightarrow>
      snd (sp_packet_fifo_string_to_block_flags (join_commas ts)) = AVERROR EINVAL)
   \<and> sp_packet_fifo_string_to_block_flags ''block_no_input,pull_no_block''
        = ({BLOCK_NO_INPUT, PULL_NO_BLOCK}, 0)
   \<and> snd (sp_packet_fifo_string_to_block_flags ''bogus'') = AVERROR EINVAL"
proof (intro conjI impI)
  assume v: "\<forall>t\<in>set ts. flag_of_token t \<noteq> None"
  then have "\<forall>t\<in>set ts. CHR '','' \<notin> set t \<and> CHR 0x00 \<notin> set t"
    using flag_of_token_chars by blast
  then show "sp_packet_fifo_string_to_block_flags (join_commas ts)
        = ({f. \<exists>t\<in>set ts. flag_of_token t = Some f}, 0)"
    by (simp add: string_to_block_flags_join flags_of_valid_tokens [OF v])
next
  assume "(\<forall>t\<in>set ts. CHR '','' \<notin> set t \<and> CHR 0x00 \<notin> set t) \<and>
        (\<exists>t\<in>set ts. t \<noteq> [] \<and> flag_of_token t = None)"
  then show "snd (sp_packet_fifo_string_to_block_flags (join_commas ts)) = AVERROR EINVAL"
    by (simp add: string_to_block_flags_join flags_of_tokens_invalid)
next
  have "sp_packet_fifo_string_to_block_flags (join_commas [''block_no_input'', ''pull_no_block''])
      = flags_of_tokens {} [''block_no_input'', ''pull_no_block'']"
    by (rule string_to_block_flags_join) simp
  then show "sp_packet_fifo_string_to_block_flags ''block_no_input,pull_no_block''
        = ({BLOCK_NO_INPUT, PULL_NO_BLOCK}, 0)"
    by (auto simp: flag_of_token_def)
next
  have "sp_packet_fifo_string_to_block_flags (join_commas [''bogus''])
      = flags_of_tokens {} [''bogus'']"
    by (rule string_to_block_flags_join) simp
  then show "snd (sp_packet_fifo_string_to_block_flags ''bogus'') = AVERROR EINVAL"
    by (simp add: flag_of_token_def)
qed

theorem string_to_block_flags_tokens_witness:
  "flag_of_token ''block_no_input'' \<noteq> None \<and> flag_of_token ''block_max_output'' \<noteq> None
   \<and> sp_packet_fifo_string_to_block_flags (join_commas [''block_no_input'', ''block_max_output''])
       = ({f. \<exists>t\<in>set [''block_no_input'', ''block_max_output'']. flag_of_token t = Some f}, 0)
   \<and> CHR '','' \<notin> set ''pull_no_block'' \<and> CHR 0x00 \<notin> set ''pull_no_block''
   \<and> CHR '','' \<notin> set ''Pull_No_Block'' \<and> CHR 0x00 \<notin> set ''Pull_No_Block''
   \<and> ''Pull_No_Block'' \<noteq> [] \<and> flag_of_token ''Pull_No_Block'' = None
   \<and> snd (sp_packet_fifo_string_to_block_flags (join_commas [''pull_no_block'', ''Pull_No_Block'']))
       = AVERROR EINVAL"
proof -
  have v: "\<forall>t\<in>set [''block_no_input'', ''block_max_output'']. flag_of_token t \<noteq> None"
    by (simp add: flag_of_token_def)
  have u: "(\<forall>t\<in>set [''pull_no_block'', ''Pull_No_Block'']. CHR '','' \<notin> set t \<and> CHR 0x00 \<notin> set t) \<and>
        (\<exists>t\<in>set [''pull_no_block'', ''Pull_No_Block'']. t \<noteq> [] \<and> flag_of_token t = None)"
    by (simp add: flag_of_token_def)
  from string_to_block_flags_tokens [of "[''block_no_input'', ''block_max_output'']"] v
  have 1: "sp_packet_fifo_string_to_block_flags (join_commas [''block_no_input'', ''block_max_output''])
       = ({f. \<exists>t\<in>set [''block_no_input'', ''block_max_output'']. flag_of_token t = Some f}, 0)"
    by blast
  from string_to_block_flags_tokens [of "[''pull_no_block'', ''Pull_No_Block'']"] u
  have 2: "snd (sp_packet_fifo_string_to_block_flags (join_commas [''pull_no_block'', ''Pull_No_Block'']))
       = AVERROR EINVAL"
    by blast
  from 1 2 show ?thesis by (simp add: flag_of_token_def)
qed

text \<open>
  C10. When \<open>string_to_block_flags\<close> returns invalid-argument, the flag set written to
  \<open>*dst\<close> is not reset: for valid tokens \<open>vs\<close> followed by a first unknown token and
  anything after it, the flag set is exactly the union of the flags of \<open>vs\<close>.
  \<open>"block_no_input,bogus"\<close> returns invalid-argument with \<open>{BLOCK_NO_INPUT}\<close>.
\<close>

theorem string_to_block_flags_keeps_flags:
  "((\<forall>t\<in>set vs. flag_of_token t \<noteq> None) \<and> bad \<noteq> [] \<and> flag_of_token bad = None \<and>
     (\<forall>t\<in>set (bad # rest). CHR '','' \<notin> set t \<and> CHR 0x00 \<notin> set t) \<longrightarrow>
      sp_packet_fifo_string_to_block_flags (join_commas (vs @ bad # rest))
        = ({f. \<exists>t\<in>set vs. flag_of_token t = Some f}, AVERROR EINVAL))
   \<and> sp_packet_fifo_string_to_block_flags ''block_no_input,bogus'' = ({BLOCK_NO_INPUT}, AVERROR EINVAL)"
proof (intro conjI impI)
  assume a: "(\<forall>t\<in>set vs. flag_of_token t \<noteq> None) \<and> bad \<noteq> [] \<and> flag_of_token bad = None \<and>
     (\<forall>t\<in>set (bad # rest). CHR '','' \<notin> set t \<and> CHR 0x00 \<notin> set t)"
  then have "\<forall>t\<in>set (vs @ bad # rest). CHR '','' \<notin> set t \<and> CHR 0x00 \<notin> set t"
    using flag_of_token_chars by auto
  then show "sp_packet_fifo_string_to_block_flags (join_commas (vs @ bad # rest))
        = ({f. \<exists>t\<in>set vs. flag_of_token t = Some f}, AVERROR EINVAL)"
    using a by (simp add: string_to_block_flags_join flags_of_tokens_unknown)
next
  have "sp_packet_fifo_string_to_block_flags (join_commas [''block_no_input'', ''bogus''])
      = flags_of_tokens {} [''block_no_input'', ''bogus'']"
    by (rule string_to_block_flags_join) simp
  then show "sp_packet_fifo_string_to_block_flags ''block_no_input,bogus'' = ({BLOCK_NO_INPUT}, AVERROR EINVAL)"
    by (simp add: flag_of_token_def)
qed

theorem string_to_block_flags_keeps_flags_witness:
  "flag_of_token ''block_max_output'' \<noteq> None \<and> flag_of_token ''pull_no_block'' \<noteq> None
   \<and> ''nope'' \<noteq> [] \<and> flag_of_token ''nope'' = None
   \<and> CHR '','' \<notin> set ''nope'' \<and> CHR 0x00 \<notin> set ''nope''
   \<and> CHR '','' \<notin> set ''block_no_input'' \<and> CHR 0x00 \<notin> set ''block_no_input''
   \<and> sp_packet_fifo_string_to_block_flags
        (join_commas ([''block_max_output'', ''pull_no_block''] @ ''nope'' # [''block_no_input'']))
       = ({f. \<exists>t\<in>set [''block_max_output'', ''pull_no_block'']. flag_of_token t = Some f}, AVERROR EINVAL)"
proof -
  have h: "(\<forall>t\<in>set [''block_max_output'', ''pull_no_block'']. flag_of_token t \<noteq> None) \<and> ''nope'' \<noteq> [] \<and>
     flag_of_token ''nope'' = None \<and>
     (\<forall>t\<in>set (''nope'' # [''block_no_input'']). CHR '','' \<notin> set t \<and> CHR 0x00 \<notin> set t)"
    by (simp add: flag_of_token_def)
  from string_to_block_flags_keeps_flags [of "[''block_max_output'', ''pull_no_block'']" "''nope''" "[''block_no_input'']"] h
  have "sp_packet_fifo_string_to_block_flags
        (join_commas ([''block_max_output'', ''pull_no_block''] @ ''nope'' # [''block_no_input'']))
       = ({f. \<exists>t\<in>set [''block_max_output'', ''pull_no_block'']. flag_of_token t = Some f}, AVERROR EINVAL)"
    by blast
  then show ?thesis by (simp add: flag_of_token_def)
qed

subsection \<open>Null pushes\<close>

lemma appendedD:
  "appended c f f' \<Longrightarrow> \<exists>n. queued f' = queued f @ replicate n c \<and> max_queued f' = max_queued f"
  unfolding appended_def by auto

lemma distribute_error_kept:
  "distribute k E s ds x e = Some (s', r) \<Longrightarrow> e \<noteq> 0 \<Longrightarrow> r \<noteq> 0"
  by (induction ds arbitrary: s e) (auto simp: errno_nonzero split: option.splits if_splits)

lemma distribute_ok_each:
  "distribute k E s ds x 0 = Some (s', 0) \<Longrightarrow> d \<in> set ds \<Longrightarrow> max_queued (s d) \<noteq> 0 \<Longrightarrow>
   \<exists>n>0. queued (s' d) = queued (s d) @ replicate n (CLONE_FN E x)"
proof (induction ds arbitrary: s)
  case Nil
  then show ?case by simp
next
  case (Cons d0 ds)
  let ?c = "CLONE_FN E x"
  from Cons.prems(1) obtain s1 ret where p: "fifo_push k E s d0 x = Some (s1, ret)"
    by (auto split: option.splits)
  have ret: "ret = 0"
  proof (rule ccontr)
    assume "ret \<noteq> 0"
    with Cons.prems(1) p show False
      by (auto simp: errno_nonzero split: if_splits dest: distribute_error_kept)
  qed
  with Cons.prems(1) p have rest: "distribute k E s1 ds x 0 = Some (s', 0)"
    using errno_nonzero(2) by (auto split: if_splits)
  have "appended ?c (s1 d) (s' d)"
    by (rule distribute_appended [OF fifo_push_appended rest])
  then obtain m where m: "queued (s' d) = queued (s1 d) @ replicate m ?c"
    by (auto dest: appendedD)
  have "appended ?c (s d) (s1 d)"
    by (rule fifo_push_appended [OF p])
  then obtain j where j: "queued (s1 d) = queued (s d) @ replicate j ?c" "max_queued (s1 d) = max_queued (s d)"
    by (auto dest: appendedD)
  show ?case
  proof (cases "d = d0")
    case True
    from push_ok_local(1) [OF p [unfolded ret]] Cons.prems(3) True
    have "queued (s1 d) = queued (s d) @ [?c]" by simp
    with m have "queued (s' d) = queued (s d) @ replicate (Suc m) ?c"
      by (simp add: replicate_app_Cons_same)
    then show ?thesis by blast
  next
    case False
    with Cons.prems(2) have "d \<in> set ds" by simp
    from Cons.IH [OF rest this] j(2) Cons.prems(3)
    obtain n where n: "0 < n" "queued (s' d) = queued (s1 d) @ replicate n ?c" by auto
    with j(1) have "queued (s' d) = queued (s d) @ replicate (j + n) ?c"
      by (simp add: replicate_add)
    with n(1) show ?thesis by (intro exI [of _ "j + n"]) simp
  qed
qed

lemmas mirrored_defs = mirrored_def mirrored_null_def example_defs

text \<open>
  C2 as stated fails. The capacity test of push is skipped for a null item, not the
  enqueue: unless \<open>max_queued = 0\<close> a null entry is appended to the queue of the FIFO
  itself. After create and mirror into two destinations, \<open>get_size\<close> of the source is 0
  before a push of null and 1 after it.
\<close>

theorem null_push_counterexample:
  "fst (sp_packet_fifo_mirror
          (fst (sp_packet_fifo_mirror
                  (fst (sp_packet_fifo_create (at_addr 2)
                          (fst (sp_packet_fifo_create (at_addr 1)
                                  (fst (sp_packet_fifo_create (at_addr 0) zeroed 2 {})) 2 {})) 2 {}))
                  (Some 1) (Some 0)))
          (Some 2) (Some 0))
     = mirrored 2
   \<and> sp_packet_fifo_get_size (mirrored 2) (Some 0) = Some 0
   \<and> sp_packet_fifo_push (Suc (Suc 0)) E_ok (mirrored 2) (Some 0) None = Some (mirrored_null 2 [None], 0)
   \<and> sp_packet_fifo_get_size (mirrored_null 2 [None]) (Some 0) = Some 1"
  by (simp add: mirrored_defs call_defs errno_defs sp_packet_fifo_get_size_def
      sp_packet_fifo_mirror_def sp_bufferlist_append_def Let_def fun_eq_iff)

text \<open>
  C2, amended. When \<open>push(dst, null)\<close> returns: with \<open>max_queued = 0\<close> the struct of \<open>dst\<close>,
  so its \<open>num_queued\<close>, is unchanged; with any other \<open>max_queued\<close>, whatever the length of
  the queue, a null entry is appended to the queue of \<open>dst\<close> as soon as the array can
  grow, and \<open>num_queued\<close> is one more than before when push returned 0. When push
  returned 0, every destination of \<open>dst\<close> that buffers (\<open>max_queued \<noteq> 0\<close>) has received at
  least one null entry at the tail of its queue.
\<close>

theorem null_push_queued:
  assumes "sp_packet_fifo_push k E s (Some a) None = Some (s', r)"
  shows "(max_queued (s a) = 0 \<longrightarrow> s' a = s a)
       \<and> (max_queued (s a) \<noteq> 0 \<and> av_fast_realloc E (length (queued (s a)) + 1) \<longrightarrow>
            s' a = (s a)\<lparr>queued := queued (s a) @ [None]\<rparr>)
       \<and> (max_queued (s a) \<noteq> 0 \<and> r = 0 \<longrightarrow> num_queued (s' a) = num_queued (s a) + 1)
       \<and> (r = 0 \<longrightarrow>
            (\<forall>d\<in>set (dests (s a)). max_queued (s d) \<noteq> 0 \<longrightarrow>
               (\<exists>n>0. queued (s' d) = queued (s d) @ replicate n None)))"
proof -
  from assms have p: "fifo_push k E s a None = Some (s', r)"
    by (simp add: sp_packet_fifo_push_def)
  note loc = fifo_push_local [OF p]
  have c: "CLONE_FN E None = None" by (simp add: CLONE_FN_def)
  have 1: "s' a = s a" if "max_queued (s a) = 0"
    using loc(2) that by simp
  have 2: "s' a = (s a)\<lparr>queued := queued (s a) @ [None]\<rparr>"
    if "max_queued (s a) \<noteq> 0" "av_fast_realloc E (length (queued (s a)) + 1)"
    using loc(5) that c by simp
  have 3: "num_queued (s' a) = num_queued (s a) + 1" if "max_queued (s a) \<noteq> 0" "r = 0"
    using push_ok_local(1) [OF p [unfolded that(2)] that(1)] by (simp add: num_queued_def)
  have 4: "\<exists>n>0. queued (s' d) = queued (s d) @ replicate n None"
    if r: "r = 0" and d: "d \<in> set (dests (s a))" and md: "max_queued (s d) \<noteq> 0" for d
  proof -
    obtain j where k: "k = Suc j" using p by (cases k) auto
    define s0 where "s0 = s(a := (s a)\<lparr>lock := True,
        queued := (if max_queued (s a) = 0 then queued (s a) else queued (s a) @ [CLONE_FN E None])\<rparr>)"
    have "\<exists>s3. distribute j E s0 (dests (s a)) None 0 = Some (s3, 0) \<and> s' = mutex_unlock s3 a"
      using p [unfolded k r fifo_push_unlocked [where s = s and dst = a, OF loc(1)] Let_def]
      by (auto simp: s0_def errno_nonzero split: if_splits)
    then obtain s3 where ds: "distribute j E s0 (dests (s a)) None 0 = Some (s3, 0)"
      and s': "s' = mutex_unlock s3 a" by blast
    have md0: "max_queued (s0 d) \<noteq> 0" using md by (auto simp: s0_def)
    from distribute_ok_each [OF ds d md0] obtain n where
      n: "0 < n" "queued (s3 d) = queued (s0 d) @ replicate n (CLONE_FN E None)" by blast
    have "d \<noteq> a"
    proof
      assume "d = a"
      moreover have "s3 a = s0 a"
        by (rule distribute_locked_frame [OF ds]) (simp add: s0_def)
      ultimately show False using n by simp
    qed
    then have "queued (s' d) = queued (s3 d)" "queued (s0 d) = queued (s d)"
      by (simp_all add: s' s0_def mutex_unlock_def)
    with n c show ?thesis by auto
  qed
  from 1 2 3 4 show ?thesis by blast
qed

theorem null_push_queued_witness:
  "sp_packet_fifo_push (Suc (Suc 0)) E_ok (mirrored 2) (Some 0) None = Some (mirrored_null 2 [None], 0)
   \<and> max_queued (mirrored 2 0) \<noteq> 0
   \<and> av_fast_realloc (E_ok :: nat env) (length (queued (mirrored 2 0)) + 1)
   \<and> mirrored_null 2 [None] 0 = (mirrored 2 0)\<lparr>queued := queued (mirrored 2 0) @ [None]\<rparr>
   \<and> num_queued (mirrored_null 2 [None] 0) = num_queued (mirrored 2 0) + 1
   \<and> 1 \<in> set (dests (mirrored 2 0)) \<and> max_queued (mirrored 2 1) \<noteq> 0
   \<and> (\<exists>n>0. queued (mirrored_null 2 [None] 1) = queued (mirrored 2 1) @ replicate n None)
   \<and> sp_packet_fifo_push (Suc (Suc 0)) E_ok (mirrored 0) (Some 0) None = Some (mirrored_null 0 [], 0)
   \<and> max_queued (mirrored 0 0) = 0
   \<and> mirrored_null 0 [] 0 = mirrored 0 0"
proof -
  have p2: "sp_packet_fifo_push (Suc (Suc 0)) E_ok (mirrored 2) (Some 0) None = Some (mirrored_null 2 [None], 0)"
    and p0: "sp_packet_fifo_push (Suc (Suc 0)) E_ok (mirrored 0) (Some 0) None = Some (mirrored_null 0 [], 0)"
    by (simp_all add: mirrored_defs call_defs errno_defs fun_eq_iff)
  have h: "max_queued (mirrored 2 0) \<noteq> 0" "av_fast_realloc (E_ok :: nat env) (length (queued (mirrored 2 0)) + 1)"
    "1 \<in> set (dests (mirrored 2 0))" "max_queued (mirrored 2 1) \<noteq> 0" "max_queued (mirrored 0 0) = 0"
    by (simp_all add: mirrored_defs)
  from null_push_queued [OF p2] h null_push_queued [OF p0]
  show ?thesis using p2 p0 by blast
qed

subsection \<open>Errors of the fan-out\<close>

lemma first_error_Cons: "first_error (r # rs) = (if r \<noteq> 0 then r else first_error rs)"
  by (simp add: first_error_def)

lemma distribute_prefix:
  "push_each k E s pre x = Some (s1, rs) \<Longrightarrow> AVERROR ENOMEM \<notin> set rs \<Longrightarrow>
   distribute k E s (pre @ l) x e = distribute k E s1 l x (if e = 0 then first_error rs else e)"
proof (induction pre arbitrary: s rs e)
  case Nil
  then show ?case by (simp add: first_error_def)
next
  case (Cons d pre)
  from Cons.prems(1) obtain s0 r rs' where
    p: "fifo_push k E s d x = Some (s0, r)" and pe: "push_each k E s0 pre x = Some (s1, rs')"
    and rs: "rs = r # rs'"
    by (auto split: option.splits)
  from rs Cons.prems(2) have r: "r \<noteq> AVERROR ENOMEM" and rs': "AVERROR ENOMEM \<notin> set rs'" by auto
  show ?case
    using Cons.IH [OF pe rs', of "if r \<noteq> 0 \<and> e = 0 then r else e"] p r
    by (simp add: rs first_error_Cons)
qed

lemmas fan_out_defs = fan_out_def E_small_def E_ok_def fifo_of_def zeroed_def

text \<open>
  C6. Let push reach its loop over the destinations, with the store \<open>s0\<close> (the FIFO
  locked and, unless \<open>max_queued = 0\<close>, the clone queued). When the pushes into the
  destinations \<open>pre\<close> return no out-of-memory and the push into the next destination \<open>d\<close>
  returns out-of-memory, push returns out-of-memory with the store as that call left
  it: the destinations after \<open>d\<close> are not attempted. When no push into a destination
  returns out-of-memory, all destinations are attempted and push returns the first
  return code that is not 0 (0 when all are 0).
\<close>

theorem push_error_policy:
  assumes "\<not> lock (s a)"
    and "s0 = s(a := (s a)\<lparr>lock := True,
               queued := (if max_queued (s a) = 0 then queued (s a)
                          else queued (s a) @ [CLONE_FN E x])\<rparr>)"
    and "max_queued (s a) = 0 \<or>
         \<not> (x \<noteq> None \<and> max_queued (s a) \<noteq> - 1 \<and> num_queued (s a) > sint (max_queued (s a) + 1)) \<and>
         av_fast_realloc E (length (queued (s a)) + 1)"
  shows "(dests (s a) = pre @ d # post \<and> push_each k E s0 pre x = Some (s1, rs) \<and>
          AVERROR ENOMEM \<notin> set rs \<and> fifo_push k E s1 d x = Some (s2, AVERROR ENOMEM) \<longrightarrow>
            fifo_push (Suc k) E s a x = Some (mutex_unlock s2 a, AVERROR ENOMEM))
       \<and> (push_each k E s0 (dests (s a)) x = Some (s', rs') \<and> AVERROR ENOMEM \<notin> set rs' \<longrightarrow>
            fifo_push (Suc k) E s a x = Some (mutex_unlock s' a, first_error rs'))"
proof -
  have push: "fifo_push (Suc k) E s a x =
      map_option (\<lambda>(s3, err). (mutex_unlock s3 a, err)) (distribute k E s0 (dests (s a)) x 0)"
    unfolding fifo_push_unlocked [where s = s and dst = a, OF assms(1)] Let_def assms(2)
    using assms(3) by auto
  have "distribute k E s0 (dests (s a)) x 0 = Some (s2, AVERROR ENOMEM)"
    if "dests (s a) = pre @ d # post" "push_each k E s0 pre x = Some (s1, rs)"
      "AVERROR ENOMEM \<notin> set rs" "fifo_push k E s1 d x = Some (s2, AVERROR ENOMEM)"
    using that by (simp add: distribute_prefix)
  moreover have "distribute k E s0 (dests (s a)) x 0 = Some (s', first_error rs')"
    if "push_each k E s0 (dests (s a)) x = Some (s', rs')" "AVERROR ENOMEM \<notin> set rs'"
    using distribute_prefix [OF that, of "[]" 0] by simp
  ultimately show ?thesis unfolding push by auto
qed

theorem push_error_policy_witness:
  "\<not> lock (fan_out 0) \<and> max_queued (fan_out 0) = 0
   \<and> dests (fan_out 0) = [1, 2] @ 3 # [4]
   \<and> push_each (Suc 0) E_small (fan_out(0 := (fan_out 0)\<lparr>lock := True\<rparr>)) [1, 2] (Some 9)
     = Some (fan_out(0 := (fan_out 0)\<lparr>lock := True\<rparr>, 2 := fifo_of [Some 9] 2 {} []), [AVERROR ENOBUFS, 0])
   \<and> AVERROR ENOMEM \<notin> set [AVERROR ENOBUFS, 0]
   \<and> fifo_push (Suc 0) E_small (fan_out(0 := (fan_out 0)\<lparr>lock := True\<rparr>, 2 := fifo_of [Some 9] 2 {} [])) 3 (Some 9)
     = Some (fan_out(0 := (fan_out 0)\<lparr>lock := True\<rparr>, 2 := fifo_of [Some 9] 2 {} []), AVERROR ENOMEM)
   \<and> fifo_push (Suc (Suc 0)) E_small fan_out 0 (Some 9)
     = Some (fan_out(2 := fifo_of [Some 9] 2 {} []), AVERROR ENOMEM)
   \<and> push_each (Suc 0) E_ok (fan_out(0 := (fan_out 0)\<lparr>lock := True\<rparr>)) (dests (fan_out 0)) (Some 9)
     = Some (fan_out(0 := (fan_out 0)\<lparr>lock := True\<rparr>, 2 := fifo_of [Some 9] 2 {} [],
                     3 := fifo_of [Some 5, Some 9] 5 {} [], 4 := fifo_of [Some 9] 2 {} []),
             [AVERROR ENOBUFS, 0, 0, 0])
   \<and> AVERROR ENOMEM \<notin> set [AVERROR ENOBUFS, 0, 0, 0]
   \<and> fifo_push (Suc (Suc 0)) E_ok fan_out 0 (Some 9)
     = Some (fan_out(2 := fifo_of [Some 9] 2 {} [], 3 := fifo_of [Some 5, Some 9] 5 {} [],
                     4 := fifo_of [Some 9] 2 {} []),
             AVERROR ENOBUFS)"
proof -
  let ?s0 = "fan_out(0 := (fan_out 0)\<lparr>lock := True\<rparr>)"
  let ?s2 = "?s0(2 := fifo_of [Some 9] 2 {} [])"
  let ?s4 = "?s0(2 := fifo_of [Some 9] 2 {} [], 3 := fifo_of [Some 5, Some 9] 5 {} [], 4 := fifo_of [Some 9] 2 {} [])"
  have l: "\<not> lock (fan_out 0)" and m: "max_queued (fan_out 0) = 0"
    and ds: "dests (fan_out 0) = [1, 2] @ 3 # [4]"
    by (simp_all add: fan_out_defs)
  have s0: "?s0 = fan_out(0 := (fan_out 0)\<lparr>lock := True,
               queued := (if max_queued (fan_out 0) = 0 then queued (fan_out 0)
                          else queued (fan_out 0) @ [CLONE_FN E (Some 9)])\<rparr>)" for E :: "nat env"
    by (simp add: fan_out_defs)
  have a: "push_each (Suc 0) E_small ?s0 [1, 2] (Some 9) = Some (?s2, [AVERROR ENOBUFS, 0])"
    by (simp add: fan_out_defs call_defs errno_defs fun_eq_iff)
  have b: "AVERROR ENOMEM \<notin> set [AVERROR ENOBUFS, 0]" "AVERROR ENOMEM \<notin> set [AVERROR ENOBUFS, 0, 0, 0]"
    by (simp_all add: errno_defs)
  have c: "fifo_push (Suc 0) E_small ?s2 3 (Some 9) = Some (?s2, AVERROR ENOMEM)"
    by (simp add: fan_out_defs call_defs errno_defs fun_eq_iff)
  have e: "push_each (Suc 0) E_ok ?s0 (dests (fan_out 0)) (Some 9) = Some (?s4, [AVERROR ENOBUFS, 0, 0, 0])"
    by (simp add: fan_out_defs call_defs errno_defs fun_eq_iff)
  have f: "first_error [AVERROR ENOBUFS, 0, 0, 0] = AVERROR ENOBUFS"
    by (simp add: first_error_def errno_defs)
  have u2: "mutex_unlock ?s2 0 = fan_out(2 := fifo_of [Some 9] 2 {} [])"
    and u4: "mutex_unlock ?s4 0 = fan_out(2 := fifo_of [Some 9] 2 {} [], 3 := fifo_of [Some 5, Some 9] 5 {} [],
                     4 := fifo_of [Some 9] 2 {} [])"
    by (simp_all add: fan_out_defs mutex_unlock_def fun_eq_iff)
  from push_error_policy [where s = fan_out and a = 0 and E = E_small and x = "Some 9" and k = "Suc 0",
      OF l s0 disjI1 [OF m]] ds a b(1) c
  have 1: "fifo_push (Suc (Suc 0)) E_small fan_out 0 (Some 9) = Some (mutex_unlock ?s2 0, AVERROR ENOMEM)"
    by blast
  from push_error_policy [where s = fan_out and a = 0 and E = E_ok and x = "Some 9" and k = "Suc 0",
      OF l s0 disjI1 [OF m]] e b(2)
  have 2: "fifo_push (Suc (Suc 0)) E_ok fan_out 0 (Some 9) = Some (mutex_unlock ?s4 0, first_error [AVERROR ENOBUFS, 0, 0, 0])"
    by blast
  from l m ds a b c e 1 [unfolded u2] 2 [unfolded u4 f] show ?thesis by blast
qed

subsection \<open>FIFO order\<close>

lemma pop_flags_nonempty:
  assumes "\<not> lock (s a)" "queued (s a) = h # t"
  shows "sp_packet_fifo_pop_flags E s (Some a) flags = Some (s(a := (s a)\<lparr>queued := t\<rparr>), h, 0)"
  using assms
  by (auto simp: sp_packet_fifo_pop_flags_def fifo_pull_flags_template_def mutex_lock_def
      mutex_unlock_def num_queued_def fun_eq_iff)

lemma pops_queue:
  "\<not> lock (s a) \<Longrightarrow> queued (s a) = q @ q' \<Longrightarrow>
   pops (length q) E s a flags = Some (s(a := (s a)\<lparr>queued := q'\<rparr>), map (\<lambda>e. (e, 0)) q)"
proof (induction q arbitrary: s)
  case Nil
  then show ?case by (simp add: fun_eq_iff)
next
  case (Cons h q)
  let ?s1 = "s(a := (s a)\<lparr>queued := q @ q'\<rparr>)"
  have p: "sp_packet_fifo_pop_flags E s (Some a) flags = Some (?s1, h, 0)"
    using pop_flags_nonempty [where s = s and a = a, OF Cons.prems(1), of h "q @ q'"] Cons.prems(2) by simp
  have "pops (length q) E ?s1 a flags = Some (?s1(a := (?s1 a)\<lparr>queued := q'\<rparr>), map (\<lambda>e. (e, 0)) q)"
    by (rule Cons.IH) (use Cons.prems(1) in simp_all)
  moreover have "?s1(a := (?s1 a)\<lparr>queued := q'\<rparr>) = s(a := (s a)\<lparr>queued := q'\<rparr>)"
    by simp
  ultimately show ?case using p by (simp add: fun_eq_iff)
qed

text \<open>
  C3 as stated fails for a FIFO that buffers nothing. With \<open>max_queued = 0\<close> the pushes
  of three items return 0 and queue nothing, and the pop that follows returns
  try-again with a null item, not the first item pushed.
\<close>

theorem unbuffered_pop_counterexample:
  "fst (sp_packet_fifo_create (at_addr 0) zeroed 0 {}) = (zeroed(0 := fifo_of [] 0 {} []) :: nat store)
   \<and> pushes (Suc 0) E_ok (zeroed(0 := fifo_of [] 0 {} [])) 0 [Some 1, Some 2, Some (3::nat)]
       = Some (zeroed(0 := fifo_of [] 0 {} []), [0, 0, 0])
   \<and> sp_packet_fifo_pop_flags E_ok (zeroed(0 := fifo_of [] 0 {} []) :: nat store) (Some 0) {}
       = Some (zeroed(0 := fifo_of [] 0 {} []), None, AVERROR EAGAIN)
   \<and> (None :: nat option) \<noteq> Some 1"
  by (simp add: example_defs call_defs errno_defs sp_packet_fifo_pop_flags_def
      fifo_pull_flags_template_def fun_eq_iff)

text \<open>
  C3, amended. On a FIFO with \<open>max_queued \<noteq> 0\<close> and an empty queue, after pushes of the
  items \<open>xs\<close> (for instance \<open>a, b, c\<close>) that all returned 0, with no pop in between, as
  many calls of \<open>pop_flags\<close> (with any flags) return 0 and, in the order of the pushes,
  the clones that the pushes stored; the queue is then empty. Where a clone is equal
  to its original, the pops return the items themselves. Push appends at the tail and
  pop removes the head.
\<close>

theorem pops_in_push_order:
  assumes "max_queued (s a) \<noteq> 0" and "queued (s a) = []"
    and "pushes k E s a xs = Some (s1, replicate (length xs) 0)"
  shows "pops (length xs) E s1 a flags
           = Some (s1(a := (s1 a)\<lparr>queued := []\<rparr>), map (\<lambda>x. (CLONE_FN E x, 0)) xs)
       \<and> ((\<forall>p. av_clone E p = Some p) \<longrightarrow>
            pops (length xs) E s1 a flags
              = Some (s1(a := (s1 a)\<lparr>queued := []\<rparr>), map (\<lambda>x. (x, 0)) xs))"
proof -
  have pops: "pops (length xs) E s1 a flags
           = Some (s1(a := (s1 a)\<lparr>queued := []\<rparr>), map (\<lambda>x. (CLONE_FN E x, 0)) xs)"
  proof (cases xs)
    case Nil
    with assms(2,3) show ?thesis by (simp add: fun_eq_iff)
  next
    case (Cons x xs')
    have all0: "\<forall>r\<in>set (replicate (length xs) (0::int)). r = 0" by simp
    from pushes_ok [OF assms(3) all0 assms(1)] assms(2)
    have s1: "s1 a = (s a)\<lparr>queued := map (CLONE_FN E) xs\<rparr>" by simp
    from assms(3) obtain s' r where "fifo_push k E s a x = Some (s', r)"
      by (auto simp: Cons sp_packet_fifo_push_def split: option.splits)
    then have "\<not> lock (s a)" by (rule fifo_push_local(1))
    then have nl: "\<not> lock (s1 a)" by (simp add: s1)
    from pops_queue [where s = s1 and a = a, OF nl, of "map (CLONE_FN E) xs" "[]" E flags] s1
    show ?thesis by (simp add: comp_def)
  qed
  moreover have "CLONE_FN E x = x" if "\<forall>p. av_clone E p = Some p" for x
    using that by (cases x) (simp_all add: CLONE_FN_def)
  ultimately show ?thesis by simp
qed

theorem pops_in_push_order_witness:
  "max_queued ((zeroed(0 := fifo_of [] 2 {} []) :: nat store) 0) \<noteq> 0
   \<and> queued ((zeroed(0 := fifo_of [] 2 {} []) :: nat store) 0) = []
   \<and> pushes (Suc 0) E_ok (zeroed(0 := fifo_of [] 2 {} [])) 0 [Some 1, Some 2, Some (3::nat)]
       = Some (zeroed(0 := fifo_of [Some 1, Some 2, Some 3] 2 {} []), replicate (length [Some 1, Some 2, Some (3::nat)]) 0)
   \<and> (\<forall>p. av_clone (E_ok :: nat env) p = Some p)
   \<and> pops (length [Some 1, Some 2, Some (3::nat)]) E_ok (zeroed(0 := fifo_of [Some 1, Some 2, Some (3::nat)] 2 {} [])) 0 {}
       = Some (zeroed(0 := fifo_of [] 2 {} []), [(Some 1, 0), (Some 2, 0), (Some 3, 0)])"
proof -
  let ?s = "zeroed(0 := fifo_of [] 2 {} []) :: nat store"
  let ?s1 = "zeroed(0 := fifo_of [Some 1, Some 2, Some 3] 2 {} []) :: nat store"
  have h: "max_queued (?s 0) \<noteq> 0" "queued (?s 0) = []"
    by (simp_all add: fifo_of_def)
  have p: "pushes (Suc 0) E_ok ?s 0 [Some 1, Some 2, Some (3::nat)]
       = Some (?s1, replicate (length [Some 1, Some 2, Some (3::nat)]) 0)"
    by (simp add: example_defs call_defs errno_defs numeral_eq_Suc)
  have c: "\<forall>p. av_clone (E_ok :: nat env) p = Some p"
    by (simp add: E_ok_def)
  have e: "?s1(0 := (?s1 0)\<lparr>queued := []\<rparr>) = ?s"
    "map (\<lambda>x. (x, 0::int)) [Some 1, Some 2, Some (3::nat)] = [(Some 1, 0), (Some 2, 0), (Some 3, 0)]"
    by (simp_all add: fifo_of_def)
  from pops_in_push_order [OF h p, of "{}"] c have
    "pops (length [Some 1, Some 2, Some (3::nat)]) E_ok ?s1 0 {}
       = Some (?s1(0 := (?s1 0)\<lparr>queued := []\<rparr>), map (\<lambda>x. (x, 0)) [Some 1, Some 2, Some (3::nat)])"
    by blast
  then have "pops (length [Some 1, Some 2, Some (3::nat)]) E_ok ?s1 0 {}
       = Some (?s, [(Some 1, 0), (Some 2, 0), (Some 3, 0)])"
    by (simp only: e)
  with h p c show ?thesis by blast
qed

subsection \<open>Pull and peek\<close>

text \<open>
  C8. On a FIFO whose queue is empty, when \<open>BLOCK_NO_INPUT\<close> is not among its block
  flags or the caller passes \<open>PULL_NO_BLOCK\<close>, \<open>pop_flags\<close> and \<open>peek_flags\<close> return
  try-again (they do return: no wait), the item written out is null and the store, so
  the queue, is as before. The caller does not hold the mutex of the FIFO.
\<close>

theorem pull_empty_try_again:
  assumes "queued (s a) = []" and "\<not> lock (s a)"
    and "BLOCK_NO_INPUT \<notin> block_flags (s a) \<or> PULL_NO_BLOCK \<in> flags"
  shows "sp_packet_fifo_pop_flags E s (Some a) flags = Some (s, None, AVERROR EAGAIN)
       \<and> sp_packet_fifo_peek_flags E s (Some a) flags = Some (s, None, AVERROR EAGAIN)"
  using assms
  by (auto simp: sp_packet_fifo_pop_flags_def sp_packet_fifo_peek_flags_def
      fifo_pull_flags_template_def mutex_lock_def num_queued_def unlock_lock)

theorem pull_empty_try_again_witness:
  "queued (fst (sp_packet_fifo_create (at_addr 0) (zeroed :: nat store) 2 {BLOCK_NO_INPUT}) 0) = []
   \<and> \<not> lock (fst (sp_packet_fifo_create (at_addr 0) (zeroed :: nat store) 2 {BLOCK_NO_INPUT}) 0)
   \<and> PULL_NO_BLOCK \<in> {PULL_NO_BLOCK}
   \<and> sp_packet_fifo_pop_flags E_ok (fst (sp_packet_fifo_create (at_addr 0) (zeroed :: nat store) 2 {BLOCK_NO_INPUT}))
         (Some 0) {PULL_NO_BLOCK}
       = Some (fst (sp_packet_fifo_create (at_addr 0) zeroed 2 {BLOCK_NO_INPUT}), None, AVERROR EAGAIN)
   \<and> sp_packet_fifo_peek_flags E_ok (fst (sp_packet_fifo_create (at_addr 0) (zeroed :: nat store) 2 {BLOCK_NO_INPUT}))
         (Some 0) {PULL_NO_BLOCK}
       = Some (fst (sp_packet_fifo_create (at_addr 0) zeroed 2 {BLOCK_NO_INPUT}), None, AVERROR EAGAIN)"
  using pull_empty_try_again [of "fst (sp_packet_fifo_create (at_addr 0) (zeroed :: nat store) 2 {BLOCK_NO_INPUT})"
      0 "{PULL_NO_BLOCK}" E_ok]
  by (simp add: sp_packet_fifo_create_def at_addr_def zeroed_def)

text \<open>
  C9. On a FIFO whose queue is not empty, \<open>peek\<close> and \<open>peek_flags\<close> return the clone of
  the head entry and the store is as before: the queue and its length, \<open>max_queued\<close>,
  the block flags, \<open>dests\<close> and \<open>sources\<close> of the FIFO are unchanged. The caller does not
  hold the mutex of the FIFO.
\<close>

theorem peek_leaves_fifo_unchanged:
  assumes "queued (s a) = h # t" and "\<not> lock (s a)"
  shows "sp_packet_fifo_peek_flags E s (Some a) flags = Some (s, CLONE_FN E h, 0)
       \<and> sp_packet_fifo_peek E s (Some a) = Some (s, CLONE_FN E h)"
  using assms
  by (auto simp: sp_packet_fifo_peek_def sp_packet_fifo_peek_flags_def
      fifo_pull_flags_template_def mutex_lock_def num_queued_def unlock_lock)

theorem peek_leaves_fifo_unchanged_witness:
  "queued ((zeroed(0 := fifo_of [Some (7::nat), Some 8] 2 {} [])) 0) = Some 7 # [Some 8]
   \<and> \<not> lock ((zeroed(0 := fifo_of [Some (7::nat), Some 8] 2 {} [])) 0)
   \<and> sp_packet_fifo_peek_flags E_ok (zeroed(0 := fifo_of [Some (7::nat), Some 8] 2 {} [])) (Some 0) {}
      = Some (zeroed(0 := fifo_of [Some 7, Some 8] 2 {} []), CLONE_FN E_ok (Some 7), 0)
   \<and> sp_packet_fifo_peek E_ok (zeroed(0 := fifo_of [Some (7::nat), Some 8] 2 {} [])) (Some 0)
      = Some (zeroed(0 := fifo_of [Some 7, Some 8] 2 {} []), CLONE_FN E_ok (Some 7))"
  using peek_leaves_fifo_unchanged [where s = "zeroed(0 := fifo_of [Some (7::nat), Some 8] 2 {} [])"
      and a = 0 and h = "Some 7" and t = "[Some 8]" and E = E_ok and flags = "{}"]
  by (simp add: fifo_of_def)

end
